theory Spec2Isabelle
  imports Complex_Main
begin

section \<open>Python values\<close>

text \<open>
  The proxy (\<^verbatim>\<open>src/async.py\<close>) handles two kinds of text.  Bytes read from the client
  socket are decoded with \<^verbatim>\<open>latin-1\<close>, which maps the byte \<open>b\<close> to the code point \<open>b\<close>:
  such text and the bytes it came from are both a \<^typ>\<open>string\<close> (a list of 8-bit
  characters).  Text that comes from elsewhere (the upstream response, the message of an
  exception, the target URL, JSON strings) is a Python \<^verbatim>\<open>str\<close> of arbitrary code
  points, a \<^typ>\<open>nat list\<close>.  Python integers are unbounded: \<^typ>\<open>int\<close>.
\<close>

type_synonym bytes = string
type_synonym ustr = "nat list"

definition ustr :: "string \<Rightarrow> ustr" where
  "ustr s = map of_char s"

abbreviation LF :: char where "LF \<equiv> CHR 0x0A"
abbreviation CR :: char where "CR \<equiv> CHR 0x0D"

datatype exn =
  TimeoutError | ValueError | TypeError | KeyError | OverflowError | IncompleteReadError
  | UnicodeEncodeError | JSONDecodeError

subsection \<open>\<^verbatim>\<open>str(n)\<close> for an integer\<close>

definition digit_char :: "nat \<Rightarrow> char" where
  "digit_char d = char_of (48 + d)"

function digits :: "nat \<Rightarrow> string" where
  "digits n = (if n < 10 then [digit_char n] else digits (n div 10) @ [digit_char (n mod 10)])"
  by pat_completeness auto
termination
  by (relation "measure id") auto

declare digits.simps [simp del]

definition str_int :: "int \<Rightarrow> string" where
  "str_int i = (if i < 0 then CHR ''-'' # digits (nat (- i)) else digits (nat i))"

subsection \<open>\<^verbatim>\<open>str.encode('utf-8')\<close>\<close>

text \<open>
  A Python \<^verbatim>\<open>str\<close> holds code points up to \<open>0x10FFFF\<close>, lone surrogates
  (\<open>0xD800\<close> to \<open>0xDFFF\<close>) included; the UTF-8 codec refuses a surrogate with
  \<^verbatim>\<open>UnicodeEncodeError\<close>.  A number above \<open>0x10FFFF\<close> is no code point of a
  \<^verbatim>\<open>str\<close>; the model refuses it as well.
\<close>

definition utf8_char :: "nat \<Rightarrow> exn + bytes" where
  "utf8_char c =
     (if c < 0x80 then Inr [char_of c]
      else if c < 0x800 then Inr [char_of (0xC0 + c div 64), char_of (0x80 + c mod 64)]
      else if 0xD800 \<le> c \<and> c \<le> 0xDFFF then Inl UnicodeEncodeError
      else if c < 0x10000 then
        Inr [char_of (0xE0 + c div 4096), char_of (0x80 + c div 64 mod 64),
             char_of (0x80 + c mod 64)]
      else if c < 0x110000 then
        Inr [char_of (0xF0 + c div 262144), char_of (0x80 + c div 4096 mod 64),
             char_of (0x80 + c div 64 mod 64), char_of (0x80 + c mod 64)]
      else Inl UnicodeEncodeError)"

fun utf8_encode :: "ustr \<Rightarrow> exn + bytes" where
  "utf8_encode [] = Inr []"
| "utf8_encode (c # cs) =
     (case utf8_char c of
        Inl e \<Rightarrow> Inl e
      | Inr b \<Rightarrow> (case utf8_encode cs of Inl e \<Rightarrow> Inl e | Inr bs \<Rightarrow> Inr (b @ bs)))"

subsection \<open>\<^verbatim>\<open>json.dumps\<close> of a dictionary of strings\<close>

text \<open>
  \<^verbatim>\<open>json.dumps\<close> runs with its defaults: \<^verbatim>\<open>ensure_ascii=True\<close> and the separators
  \<^verbatim>\<open>', '\<close> and \<^verbatim>\<open>': '\<close>.  A string is written between double quotes; the quote and the
  backslash are escaped, the printable ASCII characters stand for themselves, five control
  characters have a short escape, and every other code point is written as
  \<^verbatim>\<open>\uXXXX\<close> (lower-case hexadecimal), as a surrogate pair above \<open>0xFFFF\<close>.
\<close>

definition hex_digit :: "nat \<Rightarrow> nat" where
  "hex_digit d = (if d < 10 then 48 + d else 87 + d)"

definition u_escape :: "nat \<Rightarrow> ustr" where
  "u_escape n =
     [92, 117, hex_digit (n div 4096 mod 16), hex_digit (n div 256 mod 16),
      hex_digit (n div 16 mod 16), hex_digit (n mod 16)]"

definition json_escape_char :: "nat \<Rightarrow> ustr" where
  "json_escape_char c =
     (if c = 34 then [92, 34]
      else if c = 92 then [92, 92]
      else if 32 \<le> c \<and> c \<le> 126 then [c]
      else if c = 8 then [92, 98]
      else if c = 12 then [92, 102]
      else if c = 10 then [92, 110]
      else if c = 13 then [92, 114]
      else if c = 9 then [92, 116]
      else if c < 0x10000 then u_escape c
      else u_escape (0xD800 + (c - 0x10000) div 1024 mod 1024)
           @ u_escape (0xDC00 + (c - 0x10000) mod 1024))"

definition json_string :: "ustr \<Rightarrow> ustr" where
  "json_string s = [34] @ concat (map json_escape_char s) @ [34]"

fun json_items :: "(ustr \<times> ustr) list \<Rightarrow> ustr" where
  "json_items [] = []"
| "json_items [(k, v)] = json_string k @ ustr '': '' @ json_string v"
| "json_items ((k, v) # kvs) = json_string k @ ustr '': '' @ json_string v @ ustr '', '' @ json_items kvs"

definition json_dumps :: "(ustr \<times> ustr) list \<Rightarrow> ustr" where
  "json_dumps d = ustr ''{'' @ json_items d @ ustr ''}''"

section \<open>The statistics register and the forward operation\<close>

record counters =
  total_requests :: int
  successful_requests :: int
  failed_requests :: int
  start_time :: string
  uptime_seconds :: int
  active_connections :: int

text \<open>The dictionary built in \<^verbatim>\<open>__init__\<close> and again in \<^verbatim>\<open>reset_stats\<close>; the clock's
  reading is a parameter.\<close>

definition fresh_stats :: "string \<Rightarrow> counters" where
  "fresh_stats now =
     \<lparr>total_requests = 0, successful_requests = 0, failed_requests = 0,
      start_time = now, uptime_seconds = 0, active_connections = 0\<rparr>"

record request =
  req_method :: string
  req_url :: ustr
  req_headers :: "(string \<times> string) list"
  req_data :: "bytes option"

text \<open>
  What the upstream exchange (\<^verbatim>\<open>client_session.request\<close> followed by
  \<^verbatim>\<open>resp.text()\<close>) does is not the proxy's code: it either delivers a response, with
  its status, its headers and its text, or raises an exception \<open>e\<close> of class
  \<^verbatim>\<open>Exception\<close> (connection refused, the 30 second timeout, a transport or decoding
  error), of which the proxy uses \<^verbatim>\<open>str(e)\<close>.  Cancellation of the task, which is not
  an \<^verbatim>\<open>Exception\<close>, happens only when the process shuts down and is not modelled.
\<close>

datatype upstream_result =
  Response int "(string \<times> string) list" ustr
  | Raised ustr

type_synonym upstream = "request \<Rightarrow> upstream_result"

text \<open>The four groups of counter updates of \<^verbatim>\<open>forward_request\<close>.  No \<^verbatim>\<open>await\<close>
  separates the two updates of \<open>forward_begin\<close>.\<close>

definition forward_begin :: "counters \<Rightarrow> counters" where
  "forward_begin s =
     s\<lparr>total_requests := total_requests s + 1,
       active_connections := active_connections s + 1\<rparr>"

definition forward_success :: "counters \<Rightarrow> counters" where
  "forward_success s = s\<lparr>successful_requests := successful_requests s + 1\<rparr>"

definition forward_failure :: "counters \<Rightarrow> counters" where
  "forward_failure s = s\<lparr>failed_requests := failed_requests s + 1\<rparr>"

definition forward_finally :: "counters \<Rightarrow> counters" where
  "forward_finally s = s\<lparr>active_connections := active_connections s - 1\<rparr>"

definition bad_gateway :: "ustr \<Rightarrow> ustr" where
  "bad_gateway details =
     json_dumps [(ustr ''error'', ustr ''Bad Gateway''), (ustr ''details'', details)]"

text \<open>One call of \<^verbatim>\<open>forward_request\<close> run without interruption: the \<^verbatim>\<open>try\<close> body,
  the \<^verbatim>\<open>except Exception\<close> branch and the \<^verbatim>\<open>finally\<close> clause.\<close>

definition forward_request :: "upstream \<Rightarrow> counters \<Rightarrow> request \<Rightarrow> counters \<times> int \<times> ustr" where
  "forward_request up s req =
     (let s1 = forward_begin s in
      case up req of
        Response status hdrs text \<Rightarrow> (forward_finally (forward_success s1), status, text)
      | Raised msg \<Rightarrow> (forward_finally (forward_failure s1), 502, bad_gateway msg))"

subsection \<open>Reading the synthetic payload back\<close>

text \<open>
  What it means for a text to be a JSON object with given keys, written independently of
  \<open>json_dumps\<close>: a recogniser for the grammar of RFC 8259, restricted to objects whose
  values are strings.  \<open>scan_string\<close> reads a string literal after its opening quote and
  returns its raw content and the text after the closing quote; \<open>members\<close> expects the
  given keys in order, each written without escapes.
\<close>

definition json_ws :: "nat \<Rightarrow> bool" where
  "json_ws c = (c = 32 \<or> c = 9 \<or> c = 10 \<or> c = 13)"

definition is_hex :: "nat \<Rightarrow> bool" where
  "is_hex c = ((48 \<le> c \<and> c \<le> 57) \<or> (65 \<le> c \<and> c \<le> 70) \<or> (97 \<le> c \<and> c \<le> 102))"

definition simple_escape :: "nat \<Rightarrow> bool" where
  "simple_escape e = (e = 34 \<or> e = 92 \<or> e = 47 \<or> e = 98 \<or> e = 102 \<or> e = 110 \<or> e = 114 \<or> e = 116)"

fun scan_string :: "ustr \<Rightarrow> (ustr \<times> ustr) option" where
  "scan_string [] = None"
| "scan_string (c # cs) =
     (if c = 34 then Some ([], cs)
      else if c = 92 then
        (case cs of
           [] \<Rightarrow> None
         | e # r \<Rightarrow>
             if simple_escape e then map_option (\<lambda>(a, b). (c # e # a, b)) (scan_string r)
             else if e = 117 then
               (case r of
                  h1 # h2 # h3 # h4 # r' \<Rightarrow>
                    if is_hex h1 \<and> is_hex h2 \<and> is_hex h3 \<and> is_hex h4
                    then map_option (\<lambda>(a, b). (c # e # h1 # h2 # h3 # h4 # a, b)) (scan_string r')
                    else None
                | _ \<Rightarrow> None)
             else None)
      else if c < 32 then None
      else map_option (\<lambda>(a, b). (c # a, b)) (scan_string cs))"

fun members :: "ustr list \<Rightarrow> ustr \<Rightarrow> bool" where
  "members [] t = False"
| "members (k # ks) t =
     (case dropWhile json_ws t of
        [] \<Rightarrow> False
      | q # r \<Rightarrow> q = 34 \<and>
         (case scan_string r of
            None \<Rightarrow> False
          | Some (raw, r1) \<Rightarrow> raw = k \<and>
             (case dropWhile json_ws r1 of
                [] \<Rightarrow> False
              | colon # r2 \<Rightarrow> colon = 58 \<and>
                 (case dropWhile json_ws r2 of
                    [] \<Rightarrow> False
                  | q2 # r3 \<Rightarrow> q2 = 34 \<and>
                     (case scan_string r3 of
                        None \<Rightarrow> False
                      | Some (val, r4) \<Rightarrow>
                         (case dropWhile json_ws r4 of
                            [] \<Rightarrow> False
                          | d # r5 \<Rightarrow>
                              if ks = [] then d = 125 \<and> dropWhile json_ws r5 = []
                              else d = 44 \<and> members ks r5))))))"

definition json_object_with_keys :: "ustr list \<Rightarrow> ustr \<Rightarrow> bool" where
  "json_object_with_keys ks t =
     (case dropWhile json_ws t of [] \<Rightarrow> False | b # r \<Rightarrow> b = 123 \<and> members ks r)"

section \<open>Interleaving of forward calls and control operations\<close>

text \<open>
  The control API's two operations on the register.  \<^verbatim>\<open>reset_stats\<close> replaces the
  dictionary by a fresh one; \<^verbatim>\<open>get_stats\<close> stores the uptime it computed from the clock.
\<close>

definition reset_stats :: "string \<Rightarrow> counters \<Rightarrow> counters" where
  "reset_stats now s = fresh_stats now"

definition get_stats :: "int \<Rightarrow> counters \<Rightarrow> counters" where
  "get_stats uptime s = s\<lparr>uptime_seconds := uptime\<rparr>"

text \<open>
  The event loop runs one task at a time and switches tasks only at an \<^verbatim>\<open>await\<close>.
  A call of \<^verbatim>\<open>forward_request\<close> therefore runs in atomic pieces: \<open>Begin\<close> (the two
  increments, up to the upstream exchange), then either \<open>UpstreamFail\<close> (the
  \<^verbatim>\<open>except\<close> branch and the \<^verbatim>\<open>finally\<close> clause) or \<open>UpstreamOk\<close> (the success
  increment inside \<^verbatim>\<open>async with\<close>) followed, after the context manager has released
  the response, by \<open>Release\<close> (the \<^verbatim>\<open>finally\<close> clause).  The state holds the register
  and the number of calls waiting at each of the two suspension points.
\<close>

record sys =
  sys_stats :: counters
  awaiting :: nat
  releasing :: nat

datatype event = Begin | UpstreamOk | UpstreamFail | Release | ResetStats string | GetStats int

fun apply_event :: "event \<Rightarrow> sys \<Rightarrow> sys option" where
  "apply_event Begin s =
     Some (s\<lparr>sys_stats := forward_begin (sys_stats s), awaiting := awaiting s + 1\<rparr>)"
| "apply_event UpstreamOk s =
     (if awaiting s = 0 then None
      else Some (s\<lparr>sys_stats := forward_success (sys_stats s),
                   awaiting := awaiting s - 1, releasing := releasing s + 1\<rparr>))"
| "apply_event UpstreamFail s =
     (if awaiting s = 0 then None
      else Some (s\<lparr>sys_stats := forward_finally (forward_failure (sys_stats s)),
                   awaiting := awaiting s - 1\<rparr>))"
| "apply_event Release s =
     (if releasing s = 0 then None
      else Some (s\<lparr>sys_stats := forward_finally (sys_stats s), releasing := releasing s - 1\<rparr>))"
| "apply_event (ResetStats now) s = Some (s\<lparr>sys_stats := reset_stats now (sys_stats s)\<rparr>)"
| "apply_event (GetStats uptime) s = Some (s\<lparr>sys_stats := get_stats uptime (sys_stats s)\<rparr>)"

fun run :: "event list \<Rightarrow> sys \<Rightarrow> sys option" where
  "run [] s = Some s"
| "run (e # es) s = (case apply_event e s of None \<Rightarrow> None | Some s' \<Rightarrow> run es s')"

definition init_sys :: "string \<Rightarrow> sys" where
  "init_sys now = \<lparr>sys_stats = fresh_stats now, awaiting = 0, releasing = 0\<rparr>"

text \<open>The events of one call of \<^verbatim>\<open>forward_request\<close> that nothing interrupts.\<close>

definition call_events :: "upstream_result \<Rightarrow> event list" where
  "call_events r =
     (case r of
        Response status hdrs text \<Rightarrow> [Begin, UpstreamOk, Release]
      | Raised msg \<Rightarrow> [Begin, UpstreamFail])"

fun is_reset :: "event \<Rightarrow> bool" where
  "is_reset (ResetStats now) = True"
| "is_reset e = False"

text \<open>\<open>resets_idle es s\<close>: along the run of \<open>es\<close> from \<open>s\<close>, every reset happens while no
  forward call is in flight.\<close>

fun resets_idle :: "event list \<Rightarrow> sys \<Rightarrow> bool" where
  "resets_idle [] s = True"
| "resets_idle (e # es) s =
     ((if is_reset e then awaiting s = 0 \<and> releasing s = 0 else True) \<and>
      (case apply_event e s of None \<Rightarrow> True | Some s' \<Rightarrow> resets_idle es s'))"

text \<open>Two invariants of the runs: every request counted is settled or still waiting for
  its upstream exchange, and the connection counter is the number of calls in flight.\<close>

definition settled_inv :: "sys \<Rightarrow> bool" where
  "settled_inv t =
     (total_requests (sys_stats t) =
        successful_requests (sys_stats t) + failed_requests (sys_stats t) + int (awaiting t))"

definition active_inv :: "sys \<Rightarrow> bool" where
  "active_inv t = (active_connections (sys_stats t) = int (awaiting t) + int (releasing t))"

section \<open>The request decoder\<close>

subsection \<open>String operations of the decoder\<close>

text \<open>\<^verbatim>\<open>str.rstrip('\r\n')\<close> removes every trailing carriage return and line feed.\<close>

definition rstrip_crlf :: "string \<Rightarrow> string" where
  "rstrip_crlf s = rev (dropWhile (\<lambda>c. c = CR \<or> c = LF) (rev s))"

text \<open>\<^verbatim>\<open>str.split(sep, maxsplit)\<close> for a separator of one character.\<close>

fun split_max :: "char \<Rightarrow> nat \<Rightarrow> string \<Rightarrow> string list" where
  "split_max sep 0 s = [s]"
| "split_max sep (Suc n) s =
     (if sep \<in> set s
      then takeWhile (\<lambda>c. c \<noteq> sep) s # split_max sep n (tl (dropWhile (\<lambda>c. c \<noteq> sep) s))
      else [s])"

text \<open>The white space of \<^verbatim>\<open>str.strip()\<close> and of \<^verbatim>\<open>int()\<close> among the code points below
  256: tab to carriage return, the four separators \<open>0x1C\<close> to \<open>0x1F\<close>, the space,
  \<open>0x85\<close> and \<open>0xA0\<close>.\<close>

definition py_isspace :: "char \<Rightarrow> bool" where
  "py_isspace c =
     (let n = (of_char c :: nat) in (9 \<le> n \<and> n \<le> 13) \<or> (28 \<le> n \<and> n \<le> 32) \<or> n = 133 \<or> n = 160)"

definition py_strip :: "string \<Rightarrow> string" where
  "py_strip s = rev (dropWhile py_isspace (rev (dropWhile py_isspace s)))"

text \<open>
  \<^verbatim>\<open>int(s)\<close> on text decoded from bytes: white space around, an optional sign, then
  decimal digits, where one underscore may stand between two digits.  Below 256 the only
  decimal digits are \<open>0\<close> to \<open>9\<close>.  (Recent interpreters also refuse a literal of more
  than 4300 digits; that configurable limit is left out.)
\<close>

definition is_digit :: "char \<Rightarrow> bool" where
  "is_digit c = (48 \<le> (of_char c :: nat) \<and> (of_char c :: nat) \<le> 57)"

definition digit_val :: "char \<Rightarrow> nat" where
  "digit_val c = of_char c - 48"

fun int_digits :: "string \<Rightarrow> nat \<Rightarrow> nat option" where
  "int_digits [] acc = Some acc"
| "int_digits (c # cs) acc =
     (if is_digit c then int_digits cs (10 * acc + digit_val c)
      else if c = CHR ''_'' then
        (case cs of
           [] \<Rightarrow> None
         | d # ds \<Rightarrow> if is_digit d then int_digits ds (10 * acc + digit_val d) else None)
      else None)"

text \<open>The value of a run of digits read after the value \<open>acc\<close>.\<close>

definition dec_value :: "nat \<Rightarrow> string \<Rightarrow> nat" where
  "dec_value acc xs = foldl (\<lambda>a c. 10 * a + digit_val c) acc xs"

definition int_unsigned :: "string \<Rightarrow> nat option" where
  "int_unsigned s =
     (case s of [] \<Rightarrow> None | c # cs \<Rightarrow> if is_digit c then int_digits cs (digit_val c) else None)"

definition py_int :: "string \<Rightarrow> int option" where
  "py_int s =
     (let t = py_strip s in
      case t of
        [] \<Rightarrow> None
      | c # cs \<Rightarrow>
          if c = CHR ''-'' then map_option (\<lambda>n. - int n) (int_unsigned cs)
          else if c = CHR ''+'' then map_option int (int_unsigned cs)
          else map_option int (int_unsigned t))"

text \<open>\<open>trims x t\<close>: \<open>t\<close> is \<open>x\<close> without the white space at its two ends.\<close>

definition trims :: "string \<Rightarrow> string \<Rightarrow> bool" where
  "trims x t =
     ((\<exists>a b. x = a @ t @ b \<and> list_all py_isspace a \<and> list_all py_isspace b)
      \<and> (t = [] \<or> (\<not> py_isspace (hd t) \<and> \<not> py_isspace (last t))))"

subsection \<open>The header dictionary\<close>

text \<open>A Python \<^verbatim>\<open>dict\<close> keeps its keys in the order of their first insertion; storing
  under a key that is present replaces the value in place.\<close>

type_synonym headers = "(string \<times> string) list"

fun dict_set :: "'k \<Rightarrow> 'v \<Rightarrow> ('k \<times> 'v) list \<Rightarrow> ('k \<times> 'v) list" where
  "dict_set k v [] = [(k, v)]"
| "dict_set k v ((k', v') # d) = (if k' = k then (k, v) # d else (k', v') # dict_set k v d)"

subsection \<open>The client's byte stream\<close>

text \<open>
  The bytes the client sends, and what follows them: the client closes its side (\<open>Eof\<close>) or
  keeps the connection open and stays silent, so that a read that needs more waits until
  its 10 second deadline (\<open>Stall\<close>).  A gap longer than the deadline inside the data has
  the effect of \<open>Stall\<close> at that place.
\<close>

datatype ending = Eof | Stall

datatype stream = Stream (buffered: bytes) (ending: ending)

text \<open>The limit of \<^verbatim>\<open>StreamReader\<close> that \<^verbatim>\<open>asyncio.start_server\<close> sets by default
  (\<open>2 ** 16\<close>): \<^verbatim>\<open>readline\<close> raises \<^verbatim>\<open>ValueError\<close> for a longer line.\<close>

definition reader_limit :: nat where
  "reader_limit = 65536"

text \<open>\<^verbatim>\<open>asyncio.wait_for(reader.readline(), timeout=10)\<close>: the line with its line feed;
  at the end of the stream whatever is left, possibly nothing.\<close>

definition readline :: "stream \<Rightarrow> exn + (bytes \<times> stream)" where
  "readline s =
     (let buf = buffered s; line = takeWhile (\<lambda>c. c \<noteq> LF) buf in
      if reader_limit < length line then Inl ValueError
      else if length line < length buf
      then Inr (line @ [LF], Stream (drop (length line + 1) buf) (ending s))
      else (case ending s of
              Eof \<Rightarrow> Inr (buf, Stream [] Eof)
            | Stall \<Rightarrow> Inl TimeoutError))"

text \<open>\<^verbatim>\<open>asyncio.wait_for(reader.readexactly(n), timeout=10)\<close>.\<close>

definition readexactly :: "int \<Rightarrow> stream \<Rightarrow> exn + (bytes \<times> stream)" where
  "readexactly n s =
     (if n < 0 then Inl ValueError
      else if nat n \<le> length (buffered s)
      then Inr (take (nat n) (buffered s), Stream (drop (nat n) (buffered s)) (ending s))
      else (case ending s of
              Eof \<Rightarrow> Inl IncompleteReadError
            | Stall \<Rightarrow> Inl TimeoutError))"

subsection \<open>Headers and body\<close>

text \<open>One turn of the header loop after the test for the blank line.  A line with a
  colon always splits in two (\<open>split_max_two\<close> below), so the last case is never taken.\<close>

definition header_step :: "headers \<Rightarrow> bytes \<Rightarrow> headers" where
  "header_step hdrs header_line =
     (let text = rstrip_crlf header_line in
      if CHR '':'' \<in> set text then
        (case split_max (CHR '':'') 1 text of
           [key, val] \<Rightarrow> dict_set (py_strip key) (py_strip val) hdrs
         | _ \<Rightarrow> hdrs)
      else hdrs)"

text \<open>The \<^verbatim>\<open>while True\<close> loop.  It leaves only at a blank line or by an exception: at
  the end of the stream \<^verbatim>\<open>readline\<close> keeps returning the empty string, which is not a
  blank line, and the loop runs forever.  Not returning is the value \<open>None\<close>.\<close>

partial_function (option) read_headers :: "stream \<Rightarrow> headers \<Rightarrow> (exn + (headers \<times> stream)) option" where
  "read_headers s hdrs =
     (case readline s of
        Inl e \<Rightarrow> Some (Inl e)
      | Inr (header_line, s') \<Rightarrow>
          if header_line = [CR, LF] \<or> header_line = [LF] then Some (Inr (hdrs, s'))
          else read_headers s' (header_step hdrs header_line))"

declare read_headers.simps [code]

definition read_body :: "headers \<Rightarrow> stream \<Rightarrow> exn + (bytes option \<times> stream)" where
  "read_body hdrs s =
     (case map_of hdrs ''Content-Length'' of
        None \<Rightarrow> Inr (None, s)
      | Some v \<Rightarrow>
          (case py_int v of
             None \<Rightarrow> Inl ValueError
           | Some content_length \<Rightarrow>
               (case readexactly content_length s of
                  Inl e \<Rightarrow> Inl e
                | Inr (body, s') \<Rightarrow> Inr (Some body, s'))))"

section \<open>Runtime configuration and the control API's update\<close>

text \<open>
  The body of \<^verbatim>\<open>POST /config\<close> is whatever JSON document the caller sent; the handler
  stores what it finds without looking at its type, so the configured target is a JSON
  value.  A float is a rational or one of the three special values that Python's parser
  accepts.
\<close>

datatype pyfloat = Finite rat | PosInf | NegInf | NaN

datatype json =
  JNull | JBool bool | JInt int | JFloat pyfloat | JStr ustr
  | JList "json list" | JObj "(ustr \<times> json) list"

record proxy =
  target_url :: json
  max_connections :: int
  stats :: counters

text \<open>\<^verbatim>\<open>key in data\<close>: membership among the keys of a dictionary or the elements of a
  list, the substring test on a string, \<^verbatim>\<open>TypeError\<close> on anything else.\<close>

fun contains :: "ustr \<Rightarrow> ustr \<Rightarrow> bool" where
  "contains k [] = (k = [])"
| "contains k (c # cs) = (take (length k) (c # cs) = k \<or> contains k cs)"

definition py_in :: "ustr \<Rightarrow> json \<Rightarrow> exn + bool" where
  "py_in key data =
     (case data of
        JObj kvs \<Rightarrow> Inr (map_of kvs key \<noteq> None)
      | JList xs \<Rightarrow> Inr (List.member xs (JStr key))
      | JStr t \<Rightarrow> Inr (contains key t)
      | _ \<Rightarrow> Inl TypeError)"

text \<open>\<^verbatim>\<open>data[key]\<close> with a string as key: a list or a string wants an integer index.\<close>

definition py_getitem :: "json \<Rightarrow> ustr \<Rightarrow> exn + json" where
  "py_getitem data key =
     (case data of
        JObj kvs \<Rightarrow> (case map_of kvs key of None \<Rightarrow> Inl KeyError | Some v \<Rightarrow> Inr v)
      | _ \<Rightarrow> Inl TypeError)"

text \<open>\<^verbatim>\<open>int(v)\<close>.  A float is truncated towards zero.  For a string the conversion
  \<open>conv\<close> (Python's \<^verbatim>\<open>int\<close> on a \<^verbatim>\<open>str\<close>, which knows the decimal digits of every
  script) is a parameter.\<close>

definition py_int_of :: "(ustr \<Rightarrow> int option) \<Rightarrow> json \<Rightarrow> exn + int" where
  "py_int_of conv v =
     (case v of
        JInt n \<Rightarrow> Inr n
      | JBool b \<Rightarrow> Inr (if b then 1 else 0)
      | JFloat f \<Rightarrow>
          (case f of
             Finite q \<Rightarrow> Inr (if 0 \<le> q then \<lfloor>q\<rfloor> else \<lceil>q\<rceil>)
           | NaN \<Rightarrow> Inl ValueError
           | _ \<Rightarrow> Inl OverflowError)
      | JStr t \<Rightarrow> (case conv t of None \<Rightarrow> Inl ValueError | Some n \<Rightarrow> Inr n)
      | _ \<Rightarrow> Inl TypeError)"

text \<open>The \<^verbatim>\<open>try\<close> body of \<^verbatim>\<open>update_config\<close>.  An exception leaves the proxy as it
  is at that moment, so the proxy is returned on both paths.  \<open>body\<close> is the outcome of
  \<^verbatim>\<open>request.json()\<close>.\<close>

definition config_try :: "(ustr \<Rightarrow> int option) \<Rightarrow> exn + json \<Rightarrow> proxy \<Rightarrow> proxy \<times> (exn + json)" where
  "config_try conv body p =
     (case body of
        Inl e \<Rightarrow> (p, Inl e)
      | Inr data \<Rightarrow>
          (case py_in (ustr ''max_connections'') data of
             Inl e \<Rightarrow> (p, Inl e)
           | Inr has_max \<Rightarrow>
               (case (if has_max then
                        (case py_getitem data (ustr ''max_connections'') of
                           Inl e \<Rightarrow> Inl e
                         | Inr v \<Rightarrow>
                             (case py_int_of conv v of
                                Inl e \<Rightarrow> Inl e
                              | Inr n \<Rightarrow> Inr (p\<lparr>max_connections := n\<rparr>)))
                      else Inr p) of
                  Inl e \<Rightarrow> (p, Inl e)
                | Inr p1 \<Rightarrow>
                    (case py_in (ustr ''target_url'') data of
                       Inl e \<Rightarrow> (p1, Inl e)
                     | Inr has_url \<Rightarrow>
                         (case (if has_url then
                                  (case py_getitem data (ustr ''target_url'') of
                                     Inl e \<Rightarrow> Inl e
                                   | Inr v \<Rightarrow> Inr (p1\<lparr>target_url := v\<rparr>))
                                else Inr p1) of
                            Inl e \<Rightarrow> (p1, Inl e)
                          | Inr p2 \<Rightarrow>
                              (p2, Inr (JObj
                                 [(ustr ''message'', JStr (ustr ''Configuration updated successfully'')),
                                  (ustr ''config'', JObj
                                     [(ustr ''max_connections'', JInt (max_connections p2)),
                                      (ustr ''target_url'', target_url p2)])])))))))"

text \<open>The handler: the status and the JSON document of the response.  \<open>str_exn\<close> gives
  the interpreter's message for an exception.\<close>

definition update_config ::
  "(ustr \<Rightarrow> int option) \<Rightarrow> (exn \<Rightarrow> ustr) \<Rightarrow> exn + json \<Rightarrow> proxy \<Rightarrow> proxy \<times> int \<times> json" where
  "update_config conv str_exn body p =
     (case config_try conv body p of
        (p', Inr doc) \<Rightarrow> (p', 200, doc)
      | (p', Inl e) \<Rightarrow> (p', 400, JObj [(ustr ''error'', JStr (str_exn e))]))"

text \<open>The constraint the specification puts on the runtime configuration.\<close>

definition valid_config :: "proxy \<Rightarrow> bool" where
  "valid_config p = (0 < max_connections p)"

section \<open>The connection handler\<close>

text \<open>The text an f-string makes of the configured target: a string stands for itself;
  for any other value the interpreter's conversion \<open>repr\<close> is a parameter.\<close>

definition format_value :: "(json \<Rightarrow> ustr) \<Rightarrow> json \<Rightarrow> ustr" where
  "format_value repr v = (case v of JStr t \<Rightarrow> t | _ \<Rightarrow> repr v)"

definition response_line :: "string \<Rightarrow> int \<Rightarrow> bytes" where
  "response_line http_version status =
     http_version @ '' '' @ str_int status @ '' OK'' @ [CR, LF]"

definition response_headers :: "ustr \<Rightarrow> bytes" where
  "response_headers response =
     ''Content-Length: '' @ str_int (int (length response)) @ [CR, LF]
     @ ''Content-Type: application/json'' @ [CR, LF, CR, LF]"

text \<open>What one connection leaves behind: the bytes handed to the writer, the request
  given to \<^verbatim>\<open>forward_request\<close> if it was called, and whether the writer was closed.\<close>

record conn =
  written :: bytes
  forwarded :: "request option"
  closed :: bool

text \<open>The bytes of the third write: the UTF-8 encoding of the response text, none when
  the encoding raises.\<close>

definition body_bytes :: "ustr \<Rightarrow> bytes" where
  "body_bytes text = (case utf8_encode text of Inl e \<Rightarrow> [] | Inr b \<Rightarrow> b)"

text \<open>
  From the forward call to the three writes.  The status line and the headers are handed
  to the writer before the body is encoded; when the encoding raises, the handler's
  \<^verbatim>\<open>except Exception\<close> branch takes over and the body is never written.
\<close>

definition respond ::
  "(json \<Rightarrow> ustr) \<Rightarrow> upstream \<Rightarrow> proxy \<Rightarrow> string \<Rightarrow> string \<Rightarrow> string \<Rightarrow> headers \<Rightarrow> bytes option
     \<Rightarrow> proxy \<times> bytes \<times> request option" where
  "respond repr up p method path http_version hdrs body =
     (let req = \<lparr>req_method = method, req_url = format_value repr (target_url p) @ ustr path,
                 req_headers = hdrs, req_data = body\<rparr>;
          (st, status, response) = forward_request up (stats p) req;
          head = response_line http_version status @ response_headers response
      in (p\<lparr>stats := st\<rparr>,
          head @ body_bytes response,
          Some req))"

text \<open>The \<^verbatim>\<open>try\<close> block of \<^verbatim>\<open>handle_proxy_request\<close> with its two \<^verbatim>\<open>except\<close>
  branches, which only log.  A split with at most two breaks gives at most three parts
  (\<open>split_max_length\<close> below), so the last case is never taken.\<close>

definition serve ::
  "(json \<Rightarrow> ustr) \<Rightarrow> upstream \<Rightarrow> proxy \<Rightarrow> stream \<Rightarrow> (proxy \<times> bytes \<times> request option) option" where
  "serve repr up p s =
     (case readline s of
        Inl e \<Rightarrow> Some (p, [], None)
      | Inr (request_line, s1) \<Rightarrow>
          if request_line = [] then Some (p, [], None)
          else
            (let parts = split_max (CHR '' '') 2 (rstrip_crlf request_line) in
             if length parts < 3 then Some (p, [], None)
             else
               (case parts of
                  [method, path, http_version] \<Rightarrow>
                    (case read_headers s1 [] of
                       None \<Rightarrow> None
                     | Some (Inl e) \<Rightarrow> Some (p, [], None)
                     | Some (Inr (hdrs, s2)) \<Rightarrow>
                         (case read_body hdrs s2 of
                            Inl e \<Rightarrow> Some (p, [], None)
                          | Inr (body, s3) \<Rightarrow>
                              Some (respond repr up p method path http_version hdrs body)))
                | _ \<Rightarrow> Some (p, [], None))))"

text \<open>The \<^verbatim>\<open>finally\<close> clause closes the writer on every path that returns.\<close>

definition closed_conn :: "proxy \<times> bytes \<times> request option \<Rightarrow> proxy \<times> conn" where
  "closed_conn r = (case r of (p', w, f) \<Rightarrow> (p', \<lparr>written = w, forwarded = f, closed = True\<rparr>))"

definition handle_proxy_request ::
  "(json \<Rightarrow> ustr) \<Rightarrow> upstream \<Rightarrow> proxy \<Rightarrow> stream \<Rightarrow> (proxy \<times> conn) option" where
  "handle_proxy_request repr up p s = map_option closed_conn (serve repr up p s)"

section \<open>Properties of the forward operation\<close>

subsection \<open>The synthetic payload is a JSON object\<close>

lemma hex_digit_ok:
  "d < 16 \<Longrightarrow> is_hex (hex_digit d) \<and> hex_digit d \<noteq> 34 \<and> hex_digit d \<noteq> 92 \<and> 32 \<le> hex_digit d"
  by (auto simp: hex_digit_def is_hex_def)

lemma scan_u_escape:
  "scan_string (u_escape n @ t) = map_option (\<lambda>(a, b). (u_escape n @ a, b)) (scan_string t)"
  using hex_digit_ok[of "n div 4096 mod 16"] hex_digit_ok[of "n div 256 mod 16"]
    hex_digit_ok[of "n div 16 mod 16"] hex_digit_ok[of "n mod 16"]
  by (simp add: u_escape_def simple_escape_def)

lemma scan_escape_char:
  "scan_string (json_escape_char c @ t) =
     map_option (\<lambda>(a, b). (json_escape_char c @ a, b)) (scan_string t)"
  by (simp add: json_escape_char_def scan_u_escape simple_escape_def option.map_comp comp_def
      split_def)

lemma scan_escaped:
  "scan_string (concat (map json_escape_char s) @ 34 # t) =
     Some (concat (map json_escape_char s), t)"
  by (induction s) (simp_all add: scan_escape_char)

lemma bad_gateway_is_object:
  "json_object_with_keys [ustr ''error'', ustr ''details''] (bad_gateway msg)"
  by (simp add: bad_gateway_def json_dumps_def json_string_def json_escape_char_def
      json_object_with_keys_def ustr_def json_ws_def scan_escaped)

lemma forward_request_result:
  "snd (forward_request up s req) =
     (case up req of
        Response status hdrs text \<Rightarrow> (status, text)
      | Raised msg \<Rightarrow> (502, bad_gateway msg))"
  by (simp add: forward_request_def split: upstream_result.split)

text \<open>
  Claim C1.  A call of the forward operation always returns a pair of a status and a text:
  when the upstream exchange delivers a response, its status and its text; when the
  exchange raises, the status 502 and a text that is a JSON object with the keys
  \<open>error\<close> and \<open>details\<close>.
\<close>

theorem forward_request_never_raises:
  "(case up req of
      Response status hdrs text \<Rightarrow> snd (forward_request up s req) = (status, text)
    | Raised msg \<Rightarrow>
        snd (forward_request up s req) = (502, bad_gateway msg) \<and>
        json_object_with_keys [ustr ''error'', ustr ''details''] (bad_gateway msg))"
  by (simp add: forward_request_result bad_gateway_is_object split: upstream_result.split)

subsection \<open>The counters\<close>

lemma forward_request_counters:
  "fst (forward_request up s req) =
     (case up req of
        Response status hdrs text \<Rightarrow> forward_finally (forward_success (forward_begin s))
      | Raised msg \<Rightarrow> forward_finally (forward_failure (forward_begin s)))"
  by (simp add: forward_request_def split: upstream_result.split)

lemma forward_request_as_events:
  "run (call_events (up req)) \<lparr>sys_stats = s, awaiting = a, releasing = r\<rparr> =
     Some \<lparr>sys_stats = fst (forward_request up s req), awaiting = a, releasing = r\<rparr>"
  by (simp add: call_events_def forward_request_counters split: upstream_result.split)

lemma apply_event_settled:
  "apply_event e s = Some t \<Longrightarrow> \<not> is_reset e \<Longrightarrow> settled_inv s \<Longrightarrow> settled_inv t"
  by (cases e)
    (auto simp: settled_inv_def forward_begin_def forward_success_def forward_failure_def
      forward_finally_def get_stats_def split: if_splits)

lemma run_settled:
  "run es s = Some t \<Longrightarrow> \<not> list_ex is_reset es \<Longrightarrow> settled_inv s \<Longrightarrow> settled_inv t"
proof (induction es arbitrary: s)
  case Nil
  then show ?case by simp
next
  case (Cons e es)
  then obtain s' where step: "apply_event e s = Some s'" and rest: "run es s' = Some t"
    by (auto split: option.splits)
  from Cons.prems have "\<not> is_reset e" and "\<not> list_ex is_reset es" by simp_all
  with step rest Cons.prems(3) Cons.IH show ?case
    using apply_event_settled by blast
qed

lemma apply_event_active:
  "apply_event e s = Some t \<Longrightarrow> (is_reset e \<Longrightarrow> awaiting s = 0 \<and> releasing s = 0)
     \<Longrightarrow> active_inv s \<Longrightarrow> active_inv t"
  by (cases e)
    (auto simp: active_inv_def forward_begin_def forward_success_def forward_failure_def
      forward_finally_def get_stats_def reset_stats_def fresh_stats_def split: if_splits)

lemma run_active:
  "run es s = Some t \<Longrightarrow> resets_idle es s \<Longrightarrow> active_inv s \<Longrightarrow> active_inv t"
proof (induction es arbitrary: s)
  case Nil
  then show ?case by simp
next
  case (Cons e es)
  then obtain s' where step: "apply_event e s = Some s'" and rest: "run es s' = Some t"
    by (auto split: option.splits)
  from Cons.prems(2) step have idle: "is_reset e \<Longrightarrow> awaiting s = 0 \<and> releasing s = 0"
    and more: "resets_idle es s'"
    by (auto split: if_splits)
  from apply_event_active[OF step idle Cons.prems(3)] have "active_inv s'" .
  with rest more Cons.IH show ?case by blast
qed

lemma init_invs: "settled_inv (init_sys now)" "active_inv (init_sys now)"
  by (simp_all add: settled_inv_def active_inv_def init_sys_def fresh_stats_def)

text \<open>
  Claim C2.  A call of the forward operation adds one to \<open>total_requests\<close> (and to
  \<open>active_connections\<close>) before the upstream exchange; over the whole call
  \<open>total_requests\<close> grows by one, exactly one of \<open>successful_requests\<close> and
  \<open>failed_requests\<close> grows by one, the other stays, and \<open>active_connections\<close> is back at
  its value.  The call is the run of its events.  After any interleaving of such events
  without a reset, once no call is in flight, the total is the sum of successes and
  failures.
\<close>

theorem forward_counters_balance:
  "total_requests (forward_begin s) = total_requests s + 1
   \<and> active_connections (forward_begin s) = active_connections s + 1
   \<and> total_requests (fst (forward_request up s req)) = total_requests s + 1
   \<and> active_connections (fst (forward_request up s req)) = active_connections s
   \<and> (case up req of
        Response status hdrs text \<Rightarrow>
          successful_requests (fst (forward_request up s req)) = successful_requests s + 1
          \<and> failed_requests (fst (forward_request up s req)) = failed_requests s
      | Raised msg \<Rightarrow>
          successful_requests (fst (forward_request up s req)) = successful_requests s
          \<and> failed_requests (fst (forward_request up s req)) = failed_requests s + 1)
   \<and> run (call_events (up req)) \<lparr>sys_stats = s, awaiting = a, releasing = r\<rparr> =
        Some \<lparr>sys_stats = fst (forward_request up s req), awaiting = a, releasing = r\<rparr>
   \<and> (run es (init_sys now) = Some t \<and> \<not> list_ex is_reset es \<and> awaiting t = 0 \<and> releasing t = 0
        \<longrightarrow> total_requests (sys_stats t) =
              successful_requests (sys_stats t) + failed_requests (sys_stats t))"
proof -
  have settle: "total_requests (sys_stats t) =
      successful_requests (sys_stats t) + failed_requests (sys_stats t)"
    if "run es (init_sys now) = Some t" "\<not> list_ex is_reset es" "awaiting t = 0"
  proof -
    from run_settled[OF that(1) that(2) init_invs(1)] that(3) show ?thesis
      by (simp add: settled_inv_def)
  qed
  have counts: "total_requests (fst (forward_request up s req)) = total_requests s + 1"
    "active_connections (fst (forward_request up s req)) = active_connections s"
    by (simp_all add: forward_request_counters forward_begin_def forward_success_def
        forward_failure_def forward_finally_def split: upstream_result.split)
  have one: "(case up req of
        Response status hdrs text \<Rightarrow>
          successful_requests (fst (forward_request up s req)) = successful_requests s + 1
          \<and> failed_requests (fst (forward_request up s req)) = failed_requests s
      | Raised msg \<Rightarrow>
          successful_requests (fst (forward_request up s req)) = successful_requests s
          \<and> failed_requests (fst (forward_request up s req)) = failed_requests s + 1)"
    by (simp add: forward_request_counters forward_begin_def forward_success_def
        forward_failure_def forward_finally_def split: upstream_result.split)
  show ?thesis
    using settle counts one forward_request_as_events[of up req s a r]
    by (simp add: forward_begin_def)
qed

theorem forward_counters_balance_witness:
  "run [Begin, Begin, UpstreamOk, GetStats 5, UpstreamFail, Release] (init_sys ''t0'') =
     Some \<lparr>sys_stats = \<lparr>total_requests = 2, successful_requests = 1, failed_requests = 1,
             start_time = ''t0'', uptime_seconds = 5, active_connections = 0\<rparr>,
           awaiting = 0, releasing = 0\<rparr>
   \<and> total_requests (fst (forward_request (\<lambda>q. Raised []) (fresh_stats ''t0'')
        \<lparr>req_method = ''GET'', req_url = [], req_headers = [], req_data = None\<rparr>)) = 1
   \<and> failed_requests (fst (forward_request (\<lambda>q. Raised []) (fresh_stats ''t0'')
        \<lparr>req_method = ''GET'', req_url = [], req_headers = [], req_data = None\<rparr>)) = 1"
  using forward_counters_balance[of "fresh_stats ''t0''" "\<lambda>q. Raised []"
      "\<lparr>req_method = ''GET'', req_url = [], req_headers = [], req_data = None\<rparr>" 0 0
      "[Begin, Begin, UpstreamOk, GetStats 5, UpstreamFail, Release]" "''t0''"]
  by (simp add: init_sys_def fresh_stats_def forward_begin_def forward_success_def
      forward_failure_def forward_finally_def get_stats_def)

text \<open>
  Claim C3 as stated: in every state that the interleavings of forward calls and control
  operations reach, \<open>active_connections\<close> is at least zero.  It fails: a reset between
  the beginning of a call and its end sets the counter to zero, and the end of the call
  takes one off.
\<close>

theorem reset_in_flight_counterexample:
  "\<not> (\<forall>es now t. run es (init_sys now) = Some t \<longrightarrow> 0 \<le> active_connections (sys_stats t))"
proof
  assume a: "\<forall>es now t. run es (init_sys now) = Some t \<longrightarrow> 0 \<le> active_connections (sys_stats t)"
  have "run [Begin, ResetStats ''t1'', UpstreamFail] (init_sys ''t0'') =
      Some \<lparr>sys_stats = \<lparr>total_requests = 0, successful_requests = 0, failed_requests = 1,
             start_time = ''t1'', uptime_seconds = 0, active_connections = - 1\<rparr>,
           awaiting = 0, releasing = 0\<rparr>"
    by (simp add: init_sys_def fresh_stats_def forward_begin_def forward_failure_def
        forward_finally_def reset_stats_def)
  with a have "0 \<le> active_connections
      \<lparr>total_requests = 0, successful_requests = 0, failed_requests = 1,
       start_time = ''t1'', uptime_seconds = 0, active_connections = - 1\<rparr>"
    by fastforce
  then show False by simp
qed

text \<open>
  Claim C3, amended.  In every state reached by an interleaving of forward calls and
  control operations in which no reset happens while a forward call is in flight,
  \<open>active_connections\<close> is the number of calls in flight, hence at least zero.
\<close>

theorem active_connections_nonneg:
  "run es (init_sys now) = Some t \<Longrightarrow> resets_idle es (init_sys now) \<Longrightarrow>
     active_connections (sys_stats t) = int (awaiting t) + int (releasing t)
     \<and> 0 \<le> active_connections (sys_stats t)"
  using run_active[of es "init_sys now" t] init_invs(2)[of now]
  by (simp add: active_inv_def)

theorem active_connections_nonneg_witness:
  "resets_idle [Begin, UpstreamOk, Release, ResetStats ''t1'', Begin, Begin, UpstreamFail]
     (init_sys ''t0'')
   \<and> run [Begin, UpstreamOk, Release, ResetStats ''t1'', Begin, Begin, UpstreamFail]
       (init_sys ''t0'') =
     Some \<lparr>sys_stats = \<lparr>total_requests = 2, successful_requests = 0, failed_requests = 1,
             start_time = ''t1'', uptime_seconds = 0, active_connections = 1\<rparr>,
           awaiting = 1, releasing = 0\<rparr>
   \<and> (0::int) \<le> 1"
  using active_connections_nonneg[of
      "[Begin, UpstreamOk, Release, ResetStats ''t1'', Begin, Begin, UpstreamFail]" "''t0''"
      "\<lparr>sys_stats = \<lparr>total_requests = 2, successful_requests = 0, failed_requests = 1,
             start_time = ''t1'', uptime_seconds = 0, active_connections = 1\<rparr>,
           awaiting = 1, releasing = 0\<rparr>"]
  by (simp add: init_sys_def fresh_stats_def forward_begin_def forward_success_def
      forward_failure_def forward_finally_def reset_stats_def)

section \<open>Properties of the request decoder and the connection handler\<close>

subsection \<open>Splitting\<close>

lemma split_first:
  "c \<in> set t \<Longrightarrow> t = takeWhile (\<lambda>x. x \<noteq> c) t @ c # tl (dropWhile (\<lambda>x. x \<noteq> c) t)"
proof -
  assume "c \<in> set t"
  then have "dropWhile (\<lambda>x. x \<noteq> c) t \<noteq> []" by (simp add: dropWhile_eq_Nil_conv)
  moreover have "hd (dropWhile (\<lambda>x. x \<noteq> c) t) = c"
    using \<open>c \<in> set t\<close> hd_dropWhile[of "\<lambda>x. x \<noteq> c" t] calculation by auto
  ultimately have "dropWhile (\<lambda>x. x \<noteq> c) t = c # tl (dropWhile (\<lambda>x. x \<noteq> c) t)"
    by (metis list.collapse)
  then show ?thesis
    by (metis takeWhile_dropWhile_id)
qed

lemma takeWhile_no_sep: "c \<notin> set (takeWhile (\<lambda>x. x \<noteq> c) t)"
  by (induction t) auto

lemma split_max_length: "length (split_max c n t) \<le> Suc n"
  by (induction n arbitrary: t) auto

lemma split_max_two:
  "c \<in> set t \<Longrightarrow>
     split_max c 1 t = [takeWhile (\<lambda>x. x \<noteq> c) t, tl (dropWhile (\<lambda>x. x \<noteq> c) t)]"
  by simp

lemma split_max_three:
  assumes "\<not> length (split_max c 2 t) < 3"
  shows "\<exists>a b r. split_max c 2 t = [a, b, r] \<and> t = a @ [c] @ b @ [c] @ r
            \<and> c \<notin> set a \<and> c \<notin> set b"
proof -
  let ?a = "takeWhile (\<lambda>x. x \<noteq> c) t"
  let ?rest = "tl (dropWhile (\<lambda>x. x \<noteq> c) t)"
  let ?b = "takeWhile (\<lambda>x. x \<noteq> c) ?rest"
  let ?r = "tl (dropWhile (\<lambda>x. x \<noteq> c) ?rest)"
  have two: "split_max c 2 t = split_max c (Suc (Suc 0)) t"
    by (simp only: numeral_2_eq_2)
  have in1: "c \<in> set t"
  proof (rule ccontr)
    assume "c \<notin> set t"
    then have "split_max c 2 t = [t]" unfolding two by simp
    with assms show False by simp
  qed
  have in2: "c \<in> set ?rest"
  proof (rule ccontr)
    assume "c \<notin> set ?rest"
    with in1 have "split_max c 2 t = [?a, ?rest]" unfolding two by simp
    with assms show False by simp
  qed
  have parts: "split_max c 2 t = [?a, ?b, ?r]"
    unfolding two using in1 in2 by simp
  have t1: "t = ?a @ [c] @ ?rest"
    using split_first[OF in1] by simp
  have t2: "?rest = ?b @ [c] @ ?r"
    using split_first[OF in2] by simp
  have whole: "t = ?a @ [c] @ ?b @ [c] @ ?r"
    by (subst t1, subst t2) (rule refl)
  have "c \<notin> set ?a" and "c \<notin> set ?b"
    by (rule takeWhile_no_sep)+
  with parts whole show ?thesis by blast
qed

lemma handle_bad_line:
  assumes "readline s = Inr (request_line, s1)"
    and "length (split_max (CHR '' '') 2 (rstrip_crlf request_line)) < 3"
  shows "handle_proxy_request repr up p s =
           Some (p, \<lparr>written = [], forwarded = None, closed = True\<rparr>)"
  using assms by (simp add: handle_proxy_request_def serve_def closed_conn_def)

lemma respond_eq:
  "respond repr up p method path version hdrs body =
     (p\<lparr>stats := fst (forward_request up (stats p)
          \<lparr>req_method = method, req_url = format_value repr (target_url p) @ ustr path,
           req_headers = hdrs, req_data = body\<rparr>)\<rparr>,
      response_line version (fst (snd (forward_request up (stats p)
          \<lparr>req_method = method, req_url = format_value repr (target_url p) @ ustr path,
           req_headers = hdrs, req_data = body\<rparr>)))
      @ response_headers (snd (snd (forward_request up (stats p)
          \<lparr>req_method = method, req_url = format_value repr (target_url p) @ ustr path,
           req_headers = hdrs, req_data = body\<rparr>)))
      @ body_bytes (snd (snd (forward_request up (stats p)
          \<lparr>req_method = method, req_url = format_value repr (target_url p) @ ustr path,
           req_headers = hdrs, req_data = body\<rparr>))),
      Some \<lparr>req_method = method, req_url = format_value repr (target_url p) @ ustr path,
           req_headers = hdrs, req_data = body\<rparr>)"
  by (simp add: respond_def Let_def split_def)

lemma handle_with_tokens:
  assumes "readline s = Inr (request_line, s1)"
    and "split_max (CHR '' '') 2 (rstrip_crlf request_line) = [method, path, version]"
  shows "handle_proxy_request repr up p s =
           (case read_headers s1 [] of
              None \<Rightarrow> None
            | Some (Inl e) \<Rightarrow> Some (p, \<lparr>written = [], forwarded = None, closed = True\<rparr>)
            | Some (Inr (hdrs, s2)) \<Rightarrow>
                (case read_body hdrs s2 of
                   Inl e \<Rightarrow> Some (p, \<lparr>written = [], forwarded = None, closed = True\<rparr>)
                 | Inr (body, s3) \<Rightarrow>
                     Some (closed_conn (respond repr up p method path version hdrs body))))"
proof -
  from assms(2) have "request_line \<noteq> []"
    by (auto simp: rstrip_crlf_def numeral_2_eq_2)
  with assms show ?thesis
    by (simp add: handle_proxy_request_def serve_def closed_conn_def
        split: sum.split prod.split option.split)
qed

lemma respond_forwarded:
  "closed_conn (respond repr up p method path version hdrs body) = (p', c) \<Longrightarrow>
     forwarded c = Some \<lparr>req_method = method,
        req_url = format_value repr (target_url p) @ ustr path,
        req_headers = hdrs, req_data = body\<rparr>
     \<and> closed c
     \<and> take (length version) (written c) = version"
  by (auto simp: respond_eq closed_conn_def response_line_def)

text \<open>
  Claim C4.  For a request line that was received: when it splits at spaces, with at most
  two breaks, into fewer than three parts, the handler closes the connection with nothing
  written (and nothing forwarded); otherwise the line is a first part without a space, a
  space, a second part without a space, a space, and a remainder that may hold spaces, and
  the handler forwards the first part as the method, the second as the path appended to
  the target, and begins its response with the remainder as the protocol version.
\<close>

theorem request_line_tokens:
  assumes "readline s = Inr (request_line, s1)"
  shows "(length (split_max (CHR '' '') 2 (rstrip_crlf request_line)) < 3 \<longrightarrow>
            handle_proxy_request repr up p s =
              Some (p, \<lparr>written = [], forwarded = None, closed = True\<rparr>))
       \<and> (\<not> length (split_max (CHR '' '') 2 (rstrip_crlf request_line)) < 3 \<longrightarrow>
            (\<exists>method path version.
               rstrip_crlf request_line = method @ '' '' @ path @ '' '' @ version
               \<and> CHR '' '' \<notin> set method \<and> CHR '' '' \<notin> set path
               \<and> (\<forall>p' c req.
                     handle_proxy_request repr up p s = Some (p', c) \<and> forwarded c = Some req \<longrightarrow>
                       req_method req = method
                       \<and> req_url req = format_value repr (target_url p) @ ustr path
                       \<and> take (length version) (written c) = version)))"
proof (intro conjI impI)
  assume "length (split_max (CHR '' '') 2 (rstrip_crlf request_line)) < 3"
  with assms show "handle_proxy_request repr up p s =
      Some (p, \<lparr>written = [], forwarded = None, closed = True\<rparr>)"
    by (rule handle_bad_line)
next
  assume "\<not> length (split_max (CHR '' '') 2 (rstrip_crlf request_line)) < 3"
  from split_max_three[OF this] obtain m pa v
    where parts: "split_max (CHR '' '') 2 (rstrip_crlf request_line) = [m, pa, v]"
      and line: "rstrip_crlf request_line = m @ '' '' @ pa @ '' '' @ v"
      and nosp: "CHR '' '' \<notin> set m" "CHR '' '' \<notin> set pa"
    by auto
  have "req_method req = m
        \<and> req_url req = format_value repr (target_url p) @ ustr pa
        \<and> take (length v) (written c) = v"
    if run: "handle_proxy_request repr up p s = Some (p', c)" and fw: "forwarded c = Some req"
    for p' c req
  proof -
    from run fw obtain hdrs body
      where "closed_conn (respond repr up p m pa v hdrs body) = (p', c)"
      unfolding handle_with_tokens[OF assms parts]
      by (auto split: option.splits sum.splits prod.splits)
    from respond_forwarded[OF this] fw show ?thesis by auto
  qed
  with line nosp show "\<exists>method path version.
       rstrip_crlf request_line = method @ '' '' @ path @ '' '' @ version
       \<and> CHR '' '' \<notin> set method \<and> CHR '' '' \<notin> set path
       \<and> (\<forall>p' c req.
             handle_proxy_request repr up p s = Some (p', c) \<and> forwarded c = Some req \<longrightarrow>
               req_method req = method
               \<and> req_url req = format_value repr (target_url p) @ ustr path
               \<and> take (length version) (written c) = version)"
    by blast
qed

subsection \<open>A request followed through the handler\<close>

lemma digit_char_simps:
  "digit_char 0 = CHR ''0''" "digit_char 1 = CHR ''1''" "digit_char 2 = CHR ''2''"
  "digit_char 3 = CHR ''3''" "digit_char 4 = CHR ''4''" "digit_char 5 = CHR ''5''"
  "digit_char 6 = CHR ''6''" "digit_char 7 = CHR ''7''" "digit_char 8 = CHR ''8''"
  "digit_char 9 = CHR ''9''"
  by code_simp+

lemma utf8_encode_ascii:
  "\<forall>c\<in>set s. (of_char c :: nat) < 128 \<Longrightarrow> utf8_encode (ustr s) = Inr s"
  by (induction s) (simp_all add: ustr_def utf8_char_def)

lemma length_ustr: "length (ustr s) = length s"
  by (simp add: ustr_def)

lemma ustr_append: "ustr a @ ustr b = ustr (a @ b)"
  by (simp add: ustr_def)

lemma ex_readline:
  "readline (Stream (''POST /a b HTTP/1.1'' @ [CR, LF] @ ''Content-Length: 3'' @ [CR, LF, CR, LF] @ ''abcd'') Stall)
     = Inr (''POST /a b HTTP/1.1'' @ [CR, LF], Stream (''Content-Length: 3'' @ [CR, LF, CR, LF] @ ''abcd'') Stall)"
  by (simp add: readline_def reader_limit_def)

lemma ex_parts:
  "split_max (CHR '' '') 2 (rstrip_crlf (''POST /a b HTTP/1.1'' @ [CR, LF])) = [''POST'', ''/a'', ''b HTTP/1.1'']"
  by (simp add: rstrip_crlf_def numeral_2_eq_2)

lemma ex_headers:
  "read_headers (Stream (''Content-Length: 3'' @ [CR, LF, CR, LF] @ ''abcd'') Stall) []
     = Some (Inr ([(''Content-Length'', ''3'')], Stream ''abcd'' Stall))"
  by (simp add: read_headers.simps readline_def reader_limit_def header_step_def rstrip_crlf_def
      py_strip_def py_isspace_def)

lemma ex_body:
  "read_body [(''Content-Length'', ''3'')] (Stream ''abcd'' Stall) = Inr (Some ''abc'', Stream ''d'' Stall)"
  by (simp add: read_body_def py_int_def py_strip_def py_isspace_def int_unsigned_def is_digit_def
      digit_val_def readexactly_def)

lemma ex_str: "str_int 200 = ''200''" "str_int 2 = ''2''"
  by (simp_all add: str_int_def digits.simps digit_char_simps)

lemma ex_respond:
  "closed_conn (respond (\<lambda>v. []) (\<lambda>q. Response 200 [] (ustr ''hi''))
     \<lparr>target_url = JStr (ustr ''http://t''), max_connections = 100, stats = fresh_stats ''t0''\<rparr>
     ''POST'' ''/a'' ''b HTTP/1.1'' [(''Content-Length'', ''3'')] (Some ''abc''))
   = (\<lparr>target_url = JStr (ustr ''http://t''), max_connections = 100,
             stats = \<lparr>total_requests = 1, successful_requests = 1, failed_requests = 0,
                      start_time = ''t0'', uptime_seconds = 0, active_connections = 0\<rparr>\<rparr>,
           \<lparr>written = ''b HTTP/1.1 200 OK'' @ [CR, LF] @ ''Content-Length: 2'' @ [CR, LF]
                @ ''Content-Type: application/json'' @ [CR, LF, CR, LF] @ ''hi'',
            forwarded = Some \<lparr>req_method = ''POST'', req_url = ustr ''http://t/a'',
                req_headers = [(''Content-Length'', ''3'')], req_data = Some ''abc''\<rparr>,
            closed = True\<rparr>)"
  by (simp add: respond_eq closed_conn_def forward_request_def forward_begin_def
      forward_success_def forward_finally_def fresh_stats_def response_line_def
      response_headers_def ex_str utf8_encode_ascii body_bytes_def format_value_def ustr_append
      length_ustr)

lemma ex_short_line:
  "readline (Stream (''GET /a'' @ [CR, LF] @ ''Host: x'' @ [CR, LF, CR, LF]) Stall)
     = Inr (''GET /a'' @ [CR, LF], Stream (''Host: x'' @ [CR, LF, CR, LF]) Stall)"
  "length (split_max (CHR '' '') 2 (rstrip_crlf (''GET /a'' @ [CR, LF]))) < 3"
  by (simp_all add: readline_def reader_limit_def rstrip_crlf_def numeral_2_eq_2)

lemma ex_handle:
  "handle_proxy_request (\<lambda>v. []) (\<lambda>q. Response 200 [] (ustr ''hi''))
     \<lparr>target_url = JStr (ustr ''http://t''), max_connections = 100, stats = fresh_stats ''t0''\<rparr>
     (Stream (''POST /a b HTTP/1.1'' @ [CR, LF] @ ''Content-Length: 3'' @ [CR, LF, CR, LF]
        @ ''abcd'') Stall)
   = Some (\<lparr>target_url = JStr (ustr ''http://t''), max_connections = 100,
             stats = \<lparr>total_requests = 1, successful_requests = 1, failed_requests = 0,
                      start_time = ''t0'', uptime_seconds = 0, active_connections = 0\<rparr>\<rparr>,
           \<lparr>written = ''b HTTP/1.1 200 OK'' @ [CR, LF] @ ''Content-Length: 2'' @ [CR, LF]
                @ ''Content-Type: application/json'' @ [CR, LF, CR, LF] @ ''hi'',
            forwarded = Some \<lparr>req_method = ''POST'', req_url = ustr ''http://t/a'',
                req_headers = [(''Content-Length'', ''3'')], req_data = Some ''abc''\<rparr>,
            closed = True\<rparr>)"
  unfolding handle_with_tokens[OF ex_readline ex_parts]
  by (simp only: ex_headers ex_body ex_respond option.case sum.case prod.case)

theorem request_line_tokens_witness:
  "handle_proxy_request (\<lambda>v. []) (\<lambda>q. Response 200 [] (ustr ''hi''))
     \<lparr>target_url = JStr (ustr ''http://t''), max_connections = 100, stats = fresh_stats ''t0''\<rparr>
     (Stream (''GET /a'' @ [CR, LF] @ ''Host: x'' @ [CR, LF, CR, LF]) Stall)
   = Some (\<lparr>target_url = JStr (ustr ''http://t''), max_connections = 100,
             stats = fresh_stats ''t0''\<rparr>,
           \<lparr>written = [], forwarded = None, closed = True\<rparr>)
   \<and> \<not> length (split_max (CHR '' '') 2 (rstrip_crlf (''POST /a b HTTP/1.1'' @ [CR, LF]))) < 3
   \<and> (\<exists>p' c. handle_proxy_request (\<lambda>v. []) (\<lambda>q. Response 200 [] (ustr ''hi''))
          \<lparr>target_url = JStr (ustr ''http://t''), max_connections = 100,
           stats = fresh_stats ''t0''\<rparr>
          (Stream (''POST /a b HTTP/1.1'' @ [CR, LF] @ ''Content-Length: 3'' @ [CR, LF, CR, LF]
             @ ''abcd'') Stall) = Some (p', c)
        \<and> map_option req_method (forwarded c) = Some ''POST''
        \<and> map_option req_url (forwarded c) = Some (ustr ''http://t/a'')
        \<and> take (length ''b HTTP/1.1'') (written c) = ''b HTTP/1.1'')"
proof -
  have long: "\<not> length (split_max (CHR '' '') 2 (rstrip_crlf (''POST /a b HTTP/1.1'' @ [CR, LF]))) < 3"
    unfolding ex_parts by simp
  from request_line_tokens[OF ex_short_line(1), of "\<lambda>v. []" "\<lambda>q. Response 200 [] (ustr ''hi'')"
      "\<lparr>target_url = JStr (ustr ''http://t''), max_connections = 100, stats = fresh_stats ''t0''\<rparr>"]
    ex_short_line(2)
  have short: "handle_proxy_request (\<lambda>v. []) (\<lambda>q. Response 200 [] (ustr ''hi''))
     \<lparr>target_url = JStr (ustr ''http://t''), max_connections = 100, stats = fresh_stats ''t0''\<rparr>
     (Stream (''GET /a'' @ [CR, LF] @ ''Host: x'' @ [CR, LF, CR, LF]) Stall)
   = Some (\<lparr>target_url = JStr (ustr ''http://t''), max_connections = 100,
             stats = fresh_stats ''t0''\<rparr>,
           \<lparr>written = [], forwarded = None, closed = True\<rparr>)"
    by blast
  from request_line_tokens[OF ex_readline, of "\<lambda>v. []" "\<lambda>q. Response 200 [] (ustr ''hi'')"
      "\<lparr>target_url = JStr (ustr ''http://t''), max_connections = 100, stats = fresh_stats ''t0''\<rparr>"]
    long short ex_handle
  show ?thesis by simp
qed

subsection \<open>The header block\<close>

lemma map_of_dict_set: "map_of (dict_set k v d) = (map_of d)(k \<mapsto> v)"
  by (induction d) (auto simp: fun_eq_iff)

lemma keys_dict_set: "set (map fst (dict_set k v d)) = insert k (set (map fst d))"
  by (induction d) force+

lemma distinct_dict_set: "distinct (map fst d) \<Longrightarrow> distinct (map fst (dict_set k v d))"
proof (induction d)
  case Nil
  then show ?case by simp
next
  case (Cons kv d)
  obtain k' v' where kv: "kv = (k', v')" by (cases kv)
  show ?case
  proof (cases "k' = k")
    case True
    with Cons.prems kv show ?thesis by simp
  next
    case False
    with Cons kv keys_dict_set[of k v d] show ?thesis by auto
  qed
qed

lemma dropWhile_front:
  "\<exists>a. x = a @ dropWhile P x \<and> list_all P a \<and> (dropWhile P x = [] \<or> \<not> P (hd (dropWhile P x)))"
proof -
  have "x = takeWhile P x @ dropWhile P x" by simp
  moreover have "list_all P (takeWhile P x)"
    by (simp add: list_all_iff) (meson set_takeWhileD)
  moreover have "dropWhile P x = [] \<or> \<not> P (hd (dropWhile P x))"
    by (metis hd_dropWhile)
  ultimately show ?thesis by blast
qed

lemma py_strip_trims: "trims x (py_strip x)"
proof -
  let ?y = "dropWhile py_isspace x"
  let ?z = "dropWhile py_isspace (rev ?y)"
  have t: "py_strip x = rev ?z" by (simp add: py_strip_def)
  from dropWhile_front[of x py_isspace] obtain a
    where a: "x = a @ ?y" "list_all py_isspace a" "?y = [] \<or> \<not> py_isspace (hd ?y)"
    by blast
  from dropWhile_front[of "rev ?y" py_isspace] obtain b
    where b: "rev ?y = b @ ?z" "list_all py_isspace b" "?z = [] \<or> \<not> py_isspace (hd ?z)"
    by blast
  from b(1) have y: "?y = rev ?z @ rev b"
    by (metis rev_append rev_rev_ident)
  with a(1) have whole: "x = a @ rev ?z @ rev b" by simp
  have sp: "list_all py_isspace (rev b)" using b(2) by (simp add: list_all_iff)
  have ends: "rev ?z = [] \<or> (\<not> py_isspace (hd (rev ?z)) \<and> \<not> py_isspace (last (rev ?z)))"
  proof (cases "?z = []")
    case True
    then show ?thesis by simp
  next
    case False
    from False b(3) have "\<not> py_isspace (hd ?z)" by blast
    moreover have "last (rev ?z) = hd ?z" by (rule last_rev)
    ultimately have l: "\<not> py_isspace (last (rev ?z))" by metis
    from False have "hd (rev ?z) = hd ?y" using y by (metis hd_append2 rev_is_Nil_conv)
    moreover from False y have "?y \<noteq> []" by (metis Nil_is_append_conv rev_is_Nil_conv)
    ultimately have "\<not> py_isspace (hd (rev ?z))" using a(3) by metis
    with l show ?thesis by simp
  qed
  show ?thesis
    unfolding trims_def t using whole a(2) sp ends by blast
qed

lemma header_step_no_colon:
  "CHR '':'' \<notin> set (rstrip_crlf header_line) \<Longrightarrow> header_step hdrs header_line = hdrs"
  by (simp add: header_step_def)

lemma header_step_colon:
  assumes "CHR '':'' \<in> set (rstrip_crlf header_line)"
  shows "\<exists>key val. rstrip_crlf header_line = key @ '':'' @ val \<and> CHR '':'' \<notin> set key
           \<and> header_step hdrs header_line = dict_set (py_strip key) (py_strip val) hdrs"
proof -
  let ?t = "rstrip_crlf header_line"
  let ?k = "takeWhile (\<lambda>x. x \<noteq> CHR '':'') ?t"
  let ?v = "tl (dropWhile (\<lambda>x. x \<noteq> CHR '':'') ?t)"
  have "header_step hdrs header_line = dict_set (py_strip ?k) (py_strip ?v) hdrs"
    using assms by (simp add: header_step_def Let_def)
  moreover have "?t = ?k @ '':'' @ ?v" using split_first[OF assms] by simp
  moreover have "CHR '':'' \<notin> set ?k" by (rule takeWhile_no_sep)
  ultimately show ?thesis by blast
qed

lemma readline_line:
  assumes "LF \<notin> set l" and "length l \<le> reader_limit"
  shows "readline (Stream (l @ LF # rest) e) = Inr (l @ [LF], Stream rest e)"
proof -
  from assms(1) have "\<forall>x\<in>set l. x \<noteq> LF" by auto
  then have "takeWhile (\<lambda>c. c \<noteq> LF) (l @ LF # rest) = l"
    by (simp add: takeWhile_tail)
  with assms(2) show ?thesis
    by (simp add: readline_def Let_def)
qed

lemma read_headers_lines:
  assumes "\<forall>l\<in>set ls. LF \<notin> set l \<and> length l \<le> reader_limit \<and> l \<noteq> [] \<and> l \<noteq> [CR]"
    and "blank = [CR, LF] \<or> blank = [LF]"
  shows "read_headers (Stream (concat (map (\<lambda>l. l @ [LF]) ls) @ blank @ rest) e) hdrs =
           Some (Inr (foldl (\<lambda>h l. header_step h (l @ [LF])) hdrs ls, Stream rest e))"
  using assms(1)
proof (induction ls arbitrary: hdrs)
  case Nil
  from assms(2) have "readline (Stream (blank @ rest) e) = Inr (blank, Stream rest e)"
    using readline_line[of "[]" rest e] readline_line[of "[CR]" rest e]
    by (auto simp: reader_limit_def)
  with assms(2) show ?case
    by (subst read_headers.simps) auto
next
  case (Cons l ls)
  then have l: "LF \<notin> set l" "length l \<le> reader_limit" "l \<noteq> []" "l \<noteq> [CR]"
    and rest: "\<forall>l\<in>set ls. LF \<notin> set l \<and> length l \<le> reader_limit \<and> l \<noteq> [] \<and> l \<noteq> [CR]"
    by simp_all
  have "readline (Stream (l @ LF # concat (map (\<lambda>l. l @ [LF]) ls) @ blank @ rest) e) =
      Inr (l @ [LF], Stream (concat (map (\<lambda>l. l @ [LF]) ls) @ blank @ rest) e)"
    by (rule readline_line[OF l(1) l(2)])
  moreover have "l @ [LF] \<noteq> [CR, LF]" "l @ [LF] \<noteq> [LF]"
    using l(3) l(4) by (auto simp: append_eq_Cons_conv)
  ultimately show ?case
    using Cons.IH[OF rest, of "header_step hdrs (l @ [LF])"]
    by (subst read_headers.simps) simp
qed

lemma header_step_stores:
  assumes "CHR '':'' \<in> set (rstrip_crlf header_line)"
  shows "\<exists>key val.
           rstrip_crlf header_line = key @ '':'' @ val \<and> CHR '':'' \<notin> set key
           \<and> trims key (py_strip key) \<and> trims val (py_strip val)
           \<and> map_of (header_step hdrs header_line) = (map_of hdrs)(py_strip key \<mapsto> py_strip val)
           \<and> (distinct (map fst hdrs) \<longrightarrow> distinct (map fst (header_step hdrs header_line)))"
proof -
  from header_step_colon[OF assms, of hdrs] obtain key val
    where kv: "rstrip_crlf header_line = key @ '':'' @ val" "CHR '':'' \<notin> set key"
      and step: "header_step hdrs header_line = dict_set (py_strip key) (py_strip val) hdrs"
    by blast
  have m: "map_of (header_step hdrs header_line) = (map_of hdrs)(py_strip key \<mapsto> py_strip val)"
    unfolding step by (rule map_of_dict_set)
  have d: "distinct (map fst hdrs) \<longrightarrow> distinct (map fst (header_step hdrs header_line))"
    unfolding step by (rule impI) (rule distinct_dict_set)
  have t1: "trims key (py_strip key)" and t2: "trims val (py_strip val)"
    by (rule py_strip_trims)+
  show ?thesis
    apply (rule exI[of _ key])
    apply (rule exI[of _ val])
    apply (intro conjI)
         apply (rule kv(1))
        apply (rule kv(2))
       apply (rule t1)
      apply (rule t2)
     apply (rule m)
    apply (rule d)
    done
qed

text \<open>
  Claim C5.  A header line without a colon leaves the dictionary as it is.  A line with a
  colon is a key without a colon, the colon and a value; both are stored with the white
  space at their ends removed, the value replaces whatever the dictionary held under the
  key, every other key keeps its value, and each key has one entry.  The loop reads
  lines up to a blank line (a bare CRLF or LF) and returns the dictionary that these
  steps build, with the stream standing behind the blank line.
\<close>

theorem header_block:
  "(CHR '':'' \<notin> set (rstrip_crlf header_line) \<longrightarrow> header_step hdrs header_line = hdrs)
   \<and> (CHR '':'' \<in> set (rstrip_crlf header_line) \<longrightarrow>
        (\<exists>key val.
           rstrip_crlf header_line = key @ '':'' @ val \<and> CHR '':'' \<notin> set key
           \<and> trims key (py_strip key) \<and> trims val (py_strip val)
           \<and> map_of (header_step hdrs header_line) = (map_of hdrs)(py_strip key \<mapsto> py_strip val)
           \<and> (distinct (map fst hdrs) \<longrightarrow> distinct (map fst (header_step hdrs header_line)))))
   \<and> ((\<forall>l\<in>set ls. LF \<notin> set l \<and> length l \<le> reader_limit \<and> l \<noteq> [] \<and> l \<noteq> [CR])
        \<and> (blank = [CR, LF] \<or> blank = [LF]) \<longrightarrow>
        read_headers (Stream (concat (map (\<lambda>l. l @ [LF]) ls) @ blank @ rest) e) hdrs =
          Some (Inr (foldl (\<lambda>h l. header_step h (l @ [LF])) hdrs ls, Stream rest e)))"
proof (intro conjI impI)
  assume "CHR '':'' \<notin> set (rstrip_crlf header_line)"
  then show "header_step hdrs header_line = hdrs" by (rule header_step_no_colon)
next
  assume "CHR '':'' \<in> set (rstrip_crlf header_line)"
  then show "\<exists>key val.
           rstrip_crlf header_line = key @ '':'' @ val \<and> CHR '':'' \<notin> set key
           \<and> trims key (py_strip key) \<and> trims val (py_strip val)
           \<and> map_of (header_step hdrs header_line) = (map_of hdrs)(py_strip key \<mapsto> py_strip val)
           \<and> (distinct (map fst hdrs) \<longrightarrow> distinct (map fst (header_step hdrs header_line)))"
    by (rule header_step_stores)
next
  assume a: "(\<forall>l\<in>set ls. LF \<notin> set l \<and> length l \<le> reader_limit \<and> l \<noteq> [] \<and> l \<noteq> [CR])
        \<and> (blank = [CR, LF] \<or> blank = [LF])"
  show "read_headers (Stream (concat (map (\<lambda>l. l @ [LF]) ls) @ blank @ rest) e) hdrs =
          Some (Inr (foldl (\<lambda>h l. header_step h (l @ [LF])) hdrs ls, Stream rest e))"
    by (rule read_headers_lines[OF conjunct1[OF a] conjunct2[OF a]])
qed

lemma ex_header_steps:
  "header_step [] (''Host: a'' @ [LF]) = [(''Host'', ''a'')]"
  "header_step [(''Host'', ''a'')] (''junk'' @ [LF]) = [(''Host'', ''a'')]"
  "header_step [(''Host'', ''a'')] (''Host :  b:c '' @ [CR, LF]) = [(''Host'', ''b:c'')]"
  by (simp_all add: header_step_def rstrip_crlf_def py_strip_def py_isspace_def)

theorem header_block_witness:
  "read_headers (Stream (''Host: a'' @ [LF] @ ''junk'' @ [LF] @ ''Host :  b:c '' @ [CR, LF]
       @ [CR, LF] @ ''xyz'') Stall) []
     = Some (Inr ([(''Host'', ''b:c'')], Stream ''xyz'' Stall))
   \<and> CHR '':'' \<notin> set (rstrip_crlf (''junk'' @ [LF]))
   \<and> header_step [(''Host'', ''a'')] (''junk'' @ [LF]) = [(''Host'', ''a'')]
   \<and> CHR '':'' \<in> set (rstrip_crlf (''Host :  b:c '' @ [CR, LF]))
   \<and> map_of (header_step [(''Host'', ''a'')] (''Host :  b:c '' @ [CR, LF])) ''Host'' = Some ''b:c''"
proof -
  have lines: "\<forall>l\<in>set [''Host: a'', ''junk'', ''Host :  b:c '' @ [CR]].
      LF \<notin> set l \<and> length l \<le> reader_limit \<and> l \<noteq> [] \<and> l \<noteq> [CR]"
    by (simp add: reader_limit_def)
  have nocolon: "CHR '':'' \<notin> set (rstrip_crlf (''junk'' @ [LF]))"
    and colon: "CHR '':'' \<in> set (rstrip_crlf (''Host :  b:c '' @ [CR, LF]))"
    by (simp_all add: rstrip_crlf_def)
  note inst = header_block[of "''junk'' @ [LF]" "[(''Host'', ''a'')]"
      "[''Host: a'', ''junk'', ''Host :  b:c '' @ [CR]]" "[CR, LF]" "''xyz''" Stall]
  from conjunct1[OF inst] nocolon
  have skip: "header_step [(''Host'', ''a'')] (''junk'' @ [LF]) = [(''Host'', ''a'')]"
    by (rule mp)
  from conjunct2[OF conjunct2[OF header_block[of "''junk'' @ [LF]" "[]"
      "[''Host: a'', ''junk'', ''Host :  b:c '' @ [CR]]" "[CR, LF]" "''xyz''" Stall]]] lines
  have "read_headers (Stream (concat (map (\<lambda>l. l @ [LF])
        [''Host: a'', ''junk'', ''Host :  b:c '' @ [CR]]) @ [CR, LF] @ ''xyz'') Stall) []
      = Some (Inr (foldl (\<lambda>h l. header_step h (l @ [LF])) []
           [''Host: a'', ''junk'', ''Host :  b:c '' @ [CR]], Stream ''xyz'' Stall))"
    by simp
  moreover have "foldl (\<lambda>h l. header_step h (l @ [LF])) []
           [''Host: a'', ''junk'', ''Host :  b:c '' @ [CR]] = [(''Host'', ''b:c'')]"
    using ex_header_steps by simp
  ultimately have loop: "read_headers (Stream (''Host: a'' @ [LF] @ ''junk'' @ [LF] @ ''Host :  b:c '' @ [CR, LF]
       @ [CR, LF] @ ''xyz'') Stall) []
     = Some (Inr ([(''Host'', ''b:c'')], Stream ''xyz'' Stall))"
    by simp
  have last: "map_of (header_step [(''Host'', ''a'')] (''Host :  b:c '' @ [CR, LF])) ''Host'' = Some ''b:c''"
    by (simp add: ex_header_steps(3)[simplified])
  from loop nocolon skip colon last show ?thesis by (intro conjI)
qed

text \<open>The loop has no exit at the end of the stream: when the client closes before the
  blank line, the header loop, and with it the handler, does not return.\<close>

lemma read_headers_at_eof_aux:
  assumes "read_headers s hdrs = Some r"
  shows "s \<noteq> Stream [] Eof"
proof (rule read_headers.raw_induct[where P = "\<lambda>s hdrs r. s \<noteq> Stream [] Eof", OF _ assms])
  fix rh :: "stream \<Rightarrow> headers \<Rightarrow> (exn + headers \<times> stream) option"
  fix s hdrs r
  assume IH: "\<And>s' h y. rh s' h = Some y \<Longrightarrow> s' \<noteq> Stream [] Eof"
    and step: "(case readline s of
        Inl e \<Rightarrow> Some (Inl e)
      | Inr (header_line, s') \<Rightarrow>
          if header_line = [CR, LF] \<or> header_line = [LF] then Some (Inr (hdrs, s'))
          else rh s' (header_step hdrs header_line)) = Some r"
  show "s \<noteq> Stream [] Eof"
  proof
    assume "s = Stream [] Eof"
    then have rl: "readline s = Inr ([], Stream [] Eof)"
      by (simp add: readline_def)
    from step have "rh (Stream [] Eof) (header_step hdrs []) = Some r"
      unfolding rl by simp
    from IH[OF this] show False by simp
  qed
qed

lemma read_headers_at_eof: "read_headers (Stream [] Eof) hdrs = None"
  using read_headers_at_eof_aux[of "Stream [] Eof" hdrs] by (cases "read_headers (Stream [] Eof) hdrs") auto

lemma handler_hangs_at_eof:
  "handle_proxy_request repr up p (Stream ''GET / HTTP/1.1'' Eof) = None"
proof -
  have "readline (Stream ''GET / HTTP/1.1'' Eof) = Inr (''GET / HTTP/1.1'', Stream [] Eof)"
    by (simp add: readline_def reader_limit_def)
  moreover have "split_max (CHR '' '') 2 (rstrip_crlf ''GET / HTTP/1.1'') = [''GET'', ''/'', ''HTTP/1.1'']"
    by (simp add: rstrip_crlf_def numeral_2_eq_2)
  ultimately show ?thesis
    using handle_with_tokens[of "Stream ''GET / HTTP/1.1'' Eof" "''GET / HTTP/1.1''" "Stream [] Eof"
        "''GET''" "''/''" "''HTTP/1.1''" repr up p]
    by (simp add: read_headers_at_eof)
qed

subsection \<open>The body\<close>

lemma handle_with_head:
  assumes "readline s = Inr (request_line, s1)"
    and "split_max (CHR '' '') 2 (rstrip_crlf request_line) = [meth, path, version]"
    and "read_headers s1 [] = Some (Inr (hdrs, s2))"
  shows "handle_proxy_request repr up p s =
           (case read_body hdrs s2 of
              Inl e \<Rightarrow> Some (p, \<lparr>written = [], forwarded = None, closed = True\<rparr>)
            | Inr (body, s3) \<Rightarrow>
                Some (closed_conn (respond repr up p meth path version hdrs body)))"
  unfolding handle_with_tokens[OF assms(1) assms(2)] assms(3) by simp




lemma read_body_invalid:
  "map_of hdrs ''Content-Length'' = Some v \<Longrightarrow> py_int v = None \<Longrightarrow> read_body hdrs s2 = Inl ValueError"
  by (simp add: read_body_def)



text \<open>
  Claim C9.  When the value of \<open>Content-Length\<close> is not an integer literal, the handler
  closes the connection with nothing written, the forward operation is not called and the
  proxy (its counters included) is unchanged.
\<close>

theorem invalid_content_length_closes:
  assumes "readline s = Inr (request_line, s1)"
    and "split_max (CHR '' '') 2 (rstrip_crlf request_line) = [meth, path, version]"
    and "read_headers s1 [] = Some (Inr (hdrs, s2))"
    and "map_of hdrs ''Content-Length'' = Some v"
    and "py_int v = None"
  shows "handle_proxy_request repr up p s =
           Some (p, \<lparr>written = [], forwarded = None, closed = True\<rparr>)"
  unfolding handle_with_head[OF assms(1) assms(2) assms(3)] read_body_invalid[OF assms(4) assms(5)]
  by simp

lemma ex_py_int: "py_int ''3'' = Some 3" "py_int ''5'' = Some 5" "py_int ''x5'' = None"
  by (simp_all add: py_int_def py_strip_def py_isspace_def int_unsigned_def is_digit_def
      digit_val_def)

lemma ex_short_body:
  "readline (Stream (''POST /a HTTP/1.1'' @ [CR, LF] @ ''Content-Length: 5'' @ [CR, LF, CR, LF]
        @ ''abcd'') Eof)
     = Inr (''POST /a HTTP/1.1'' @ [CR, LF],
            Stream (''Content-Length: 5'' @ [CR, LF, CR, LF] @ ''abcd'') Eof)"
  "split_max (CHR '' '') 2 (rstrip_crlf (''POST /a HTTP/1.1'' @ [CR, LF]))
     = [''POST'', ''/a'', ''HTTP/1.1'']"
  "read_headers (Stream (''Content-Length: 5'' @ [CR, LF, CR, LF] @ ''abcd'') Eof) []
     = Some (Inr ([(''Content-Length'', ''5'')], Stream ''abcd'' Eof))"
  by (simp_all add: read_headers.simps readline_def reader_limit_def header_step_def
      rstrip_crlf_def py_strip_def py_isspace_def numeral_2_eq_2)

lemma ex_no_length:
  "readline (Stream (''GET /a HTTP/1.1'' @ [CR, LF] @ ''Host: x'' @ [CR, LF, CR, LF]) Stall)
     = Inr (''GET /a HTTP/1.1'' @ [CR, LF], Stream (''Host: x'' @ [CR, LF, CR, LF]) Stall)"
  "split_max (CHR '' '') 2 (rstrip_crlf (''GET /a HTTP/1.1'' @ [CR, LF]))
     = [''GET'', ''/a'', ''HTTP/1.1'']"
  "read_headers (Stream (''Host: x'' @ [CR, LF, CR, LF]) Stall) []
     = Some (Inr ([(''Host'', ''x'')], Stream [] Stall))"
  by (simp_all add: read_headers.simps readline_def reader_limit_def header_step_def
      rstrip_crlf_def py_strip_def py_isspace_def numeral_2_eq_2)

lemma ex_bad_length:
  "readline (Stream (''POST /a HTTP/1.1'' @ [CR, LF] @ ''Content-Length: x5'' @ [CR, LF, CR, LF]
        @ ''abcd'') Eof)
     = Inr (''POST /a HTTP/1.1'' @ [CR, LF],
            Stream (''Content-Length: x5'' @ [CR, LF, CR, LF] @ ''abcd'') Eof)"
  "read_headers (Stream (''Content-Length: x5'' @ [CR, LF, CR, LF] @ ''abcd'') Eof) []
     = Some (Inr ([(''Content-Length'', ''x5'')], Stream ''abcd'' Eof))"
  by (simp_all add: read_headers.simps readline_def reader_limit_def header_step_def
      rstrip_crlf_def py_strip_def py_isspace_def numeral_2_eq_2)


theorem invalid_content_length_closes_witness:
  "py_int ''x5'' = None
   \<and> handle_proxy_request (\<lambda>v. []) (\<lambda>q. Response 200 [] (ustr ''hi''))
     \<lparr>target_url = JStr (ustr ''http://t''), max_connections = 100, stats = fresh_stats ''t0''\<rparr>
     (Stream (''POST /a HTTP/1.1'' @ [CR, LF] @ ''Content-Length: x5'' @ [CR, LF, CR, LF]
        @ ''abcd'') Eof)
       = Some (\<lparr>target_url = JStr (ustr ''http://t''), max_connections = 100, stats = fresh_stats ''t0''\<rparr>, \<lparr>written = [], forwarded = None, closed = True\<rparr>)"
proof -
  have hdr: "map_of [(''Content-Length'', ''x5'')] ''Content-Length'' = Some ''x5''"
    by simp
  from invalid_content_length_closes[OF ex_bad_length(1) ex_short_body(2) ex_bad_length(2) hdr
      ex_py_int(3), of "(\<lambda>v. [])" "(\<lambda>q. Response 200 [] (ustr ''hi''))" "\<lparr>target_url = JStr (ustr ''http://t''), max_connections = 100, stats = fresh_stats ''t0''\<rparr>"]
    ex_py_int(3)
  show ?thesis by (intro conjI)
qed

subsection \<open>The response\<close>

lemma utf8_char_length:
  "utf8_char c = Inr b \<Longrightarrow> 1 \<le> length b \<and> (length b = 1 \<longleftrightarrow> c < 128)"
  by (auto simp: utf8_char_def split: if_splits)

lemma utf8_char_fails: "utf8_char c = Inl e \<Longrightarrow> \<not> c < 128"
  by (auto simp: utf8_char_def split: if_splits)

lemma utf8_encode_length:
  "utf8_encode s = Inr bs \<Longrightarrow>
     length s \<le> length bs \<and> (length bs = length s \<longleftrightarrow> (\<forall>c\<in>set s. c < 128))"
proof (induction s arbitrary: bs)
  case Nil
  then show ?case by simp
next
  case (Cons c cs)
  from Cons.prems obtain b bs' where b: "utf8_char c = Inr b" and bs': "utf8_encode cs = Inr bs'"
    and bs: "bs = b @ bs'"
    by (auto split: sum.splits)
  from utf8_char_length[OF b] Cons.IH[OF bs'] bs show ?case by auto
qed

lemma utf8_encode_fails:
  "utf8_encode s = Inl e \<Longrightarrow> s \<noteq> [] \<and> \<not> (\<forall>c\<in>set s. c < 128)"
proof (induction s)
  case Nil
  then show ?case by simp
next
  case (Cons c cs)
  then show ?case
    using utf8_char_fails[of c] by (auto split: sum.splits)
qed

lemma body_bytes_length:
  "length (body_bytes text) = length text \<longleftrightarrow> (\<forall>c\<in>set text. c < 128)"
proof (cases "utf8_encode text")
  case (Inl e)
  with utf8_encode_fails[OF Inl] show ?thesis by (simp add: body_bytes_def)
next
  case (Inr b)
  with utf8_encode_length[OF Inr] show ?thesis by (simp add: body_bytes_def)
qed

subsection \<open>Decimal round trip\<close>

lemma digit_val_digit_char: "d < 10 \<Longrightarrow> digit_val (digit_char d) = d \<and> is_digit (digit_char d)"
  by (simp add: digit_val_def digit_char_def is_digit_def)

lemma int_digits_all:
  "\<forall>c\<in>set xs. is_digit c \<Longrightarrow> int_digits xs acc = Some (dec_value acc xs)"
  by (induction xs arbitrary: acc) (simp_all add: dec_value_def)

lemma digits_are_digits: "\<forall>c\<in>set (digits n). is_digit c"
proof (induction n rule: digits.induct)
  case (1 n)
  show ?case
  proof (cases "n < 10")
    case True
    then show ?thesis using digit_val_digit_char[of n] by (subst digits.simps) simp
  next
    case False
    with 1 digit_val_digit_char[of "n mod 10"] show ?thesis
      by (subst digits.simps) auto
  qed
qed

lemma digits_nonempty: "digits n \<noteq> []"
  by (subst digits.simps) simp

lemma dec_value_digits: "dec_value 0 (digits n) = n"
proof (induction n rule: digits.induct)
  case (1 n)
  show ?case
  proof (cases "n < 10")
    case True
    then show ?thesis
      using digit_val_digit_char[of n] by (subst digits.simps) (simp add: dec_value_def)
  next
    case False
    with 1 have "dec_value 0 (digits (n div 10)) = n div 10" by simp
    with False digit_val_digit_char[of "n mod 10"] show ?thesis
      by (subst digits.simps) (simp add: dec_value_def)
  qed
qed

lemma digit_not_space: "is_digit c \<Longrightarrow> \<not> py_isspace c \<and> c \<noteq> CHR ''-'' \<and> c \<noteq> CHR ''+''"
  by (auto simp: is_digit_def py_isspace_def Let_def)

lemma dropWhile_keep: "ys \<noteq> [] \<Longrightarrow> \<not> P (hd ys) \<Longrightarrow> dropWhile P ys = ys"
  by (cases ys) simp_all

lemma py_strip_digits:
  assumes "\<forall>c\<in>set xs. is_digit c"
  shows "py_strip xs = xs"
proof (cases "xs = []")
  case True
  then show ?thesis by (simp add: py_strip_def)
next
  case False
  then have "hd xs \<in> set xs" and "last xs \<in> set xs" by simp_all
  with assms have h: "\<not> py_isspace (hd xs)" and l: "\<not> py_isspace (last xs)"
    using digit_not_space by blast+
  have front: "dropWhile py_isspace xs = xs"
    using False h by (rule dropWhile_keep[of xs py_isspace])
  from False have "rev xs \<noteq> []" by simp
  moreover from l have "\<not> py_isspace (hd (rev xs))" by (simp add: hd_rev)
  ultimately have rear: "dropWhile py_isspace (rev xs) = rev xs"
    by (rule dropWhile_keep[of "rev xs" py_isspace])
  show ?thesis
    unfolding py_strip_def front rear by simp
qed

lemma py_int_str_int: "py_int (str_int (int n)) = Some (int n)"
proof -
  let ?d = "digits n"
  have all: "\<forall>c\<in>set ?d. is_digit c" by (rule digits_are_digits)
  obtain c cs where d: "?d = c # cs" using digits_nonempty[of n] by (cases ?d) auto
  with all have c: "is_digit c" and cs: "\<forall>x\<in>set cs. is_digit x" by simp_all
  have "int_unsigned ?d = Some (dec_value (digit_val c) cs)"
    using c int_digits_all[OF cs] by (simp add: d int_unsigned_def)
  also have "dec_value (digit_val c) cs = dec_value 0 ?d"
    by (simp add: d dec_value_def)
  also have "\<dots> = n" by (rule dec_value_digits)
  finally have u: "int_unsigned ?d = Some n" .
  have "py_strip ?d = ?d" by (rule py_strip_digits[OF all])
  with u d digit_not_space[OF c] show ?thesis
    by (simp add: py_int_def str_int_def)
qed

lemma handle_forwarding:
  assumes "readline s = Inr (request_line, s1)"
    and "split_max (CHR '' '') 2 (rstrip_crlf request_line) = [meth, path, version]"
    and "read_headers s1 [] = Some (Inr (hdrs, s2))"
    and "read_body hdrs s2 = Inr (body, s3)"
  shows "handle_proxy_request repr up p s =
           Some (closed_conn (respond repr up p meth path version hdrs body))"
  unfolding handle_with_head[OF assms(1) assms(2) assms(3)] assms(4) by simp

text \<open>
  Claim C7, amended.  For every forwarded request whose upstream response has a text that
  UTF-8 can encode (no lone surrogate code point), the bytes written to the client are
  exactly: the client's protocol version, a space, the relayed status, the fixed reason
  \<open>OK\<close> and CRLF; the \<open>Content-Length\<close> header and the fixed
  \<open>Content-Type: application/json\<close> header; a blank line; the encoded text.  Nothing of
  the upstream response's headers appears.
\<close>

theorem response_format:
  assumes "readline s = Inr (request_line, s1)"
    and "split_max (CHR '' '') 2 (rstrip_crlf request_line) = [meth, path, version]"
    and "read_headers s1 [] = Some (Inr (hdrs, s2))"
    and "read_body hdrs s2 = Inr (body, s3)"
    and "up \<lparr>req_method = meth, req_url = format_value repr (target_url p) @ ustr path,
         req_headers = hdrs, req_data = body\<rparr> = Response status upstream_headers text"
    and "utf8_encode text = Inr encoded"
  shows "handle_proxy_request repr up p s =
           Some (p\<lparr>stats := forward_finally (forward_success (forward_begin (stats p)))\<rparr>,
                 \<lparr>written = version @ '' '' @ str_int status @ '' OK'' @ [CR, LF]
                    @ ''Content-Length: '' @ str_int (int (length text)) @ [CR, LF]
                    @ ''Content-Type: application/json'' @ [CR, LF]
                    @ [CR, LF]
                    @ encoded,
                  forwarded = Some \<lparr>req_method = meth, req_url = format_value repr (target_url p) @ ustr path,
         req_headers = hdrs, req_data = body\<rparr>,
                  closed = True\<rparr>)"
  unfolding handle_forwarding[OF assms(1) assms(2) assms(3) assms(4)]
  using assms(5) assms(6)
  by (simp add: respond_eq closed_conn_def forward_request_def response_line_def
      response_headers_def body_bytes_def)

text \<open>
  Claim C10.  In every response the handler writes, the value of \<open>Content-Length\<close> is the
  decimal literal of the number of characters of the response text, while the bytes
  written after the blank line are the UTF-8 encoding of the text (none when the encoding
  raises); the number of these bytes equals the announced length exactly when every
  character of the text is ASCII.
\<close>

theorem content_length_counts_characters:
  assumes "readline s = Inr (request_line, s1)"
    and "split_max (CHR '' '') 2 (rstrip_crlf request_line) = [meth, path, version]"
    and "read_headers s1 [] = Some (Inr (hdrs, s2))"
    and "read_body hdrs s2 = Inr (body, s3)"
    and "snd (forward_request up (stats p) \<lparr>req_method = meth, req_url = format_value repr (target_url p) @ ustr path,
         req_headers = hdrs, req_data = body\<rparr>) = (status, text)"
  shows "\<exists>p' c. handle_proxy_request repr up p s = Some (p', c)
           \<and> written c = response_line version status
                 @ ''Content-Length: '' @ str_int (int (length text)) @ [CR, LF]
                 @ ''Content-Type: application/json'' @ [CR, LF, CR, LF]
                 @ body_bytes text
           \<and> py_int (str_int (int (length text))) = Some (int (length text))
           \<and> (\<forall>encoded. utf8_encode text = Inr encoded \<longrightarrow> body_bytes text = encoded)
           \<and> (length (body_bytes text) = length text \<longleftrightarrow> (\<forall>c\<in>set text. c < 128))"
proof -
  have "handle_proxy_request repr up p s =
      Some (p\<lparr>stats := fst (forward_request up (stats p) \<lparr>req_method = meth, req_url = format_value repr (target_url p) @ ustr path,
         req_headers = hdrs, req_data = body\<rparr>)\<rparr>,
            \<lparr>written = response_line version status
                 @ ''Content-Length: '' @ str_int (int (length text)) @ [CR, LF]
                 @ ''Content-Type: application/json'' @ [CR, LF, CR, LF]
                 @ body_bytes text,
              forwarded = Some \<lparr>req_method = meth, req_url = format_value repr (target_url p) @ ustr path,
         req_headers = hdrs, req_data = body\<rparr>,
              closed = True\<rparr>)"
    unfolding handle_forwarding[OF assms(1) assms(2) assms(3) assms(4)]
    using assms(5)
    by (simp add: respond_eq closed_conn_def response_headers_def)
  moreover have "\<forall>encoded. utf8_encode text = Inr encoded \<longrightarrow> body_bytes text = encoded"
    by (simp add: body_bytes_def)
  ultimately show ?thesis
    using py_int_str_int[of "length text"] body_bytes_length[of "text"] by simp
qed

lemma ex_no_body: "read_body [(''Host'', ''x'')] (Stream [] Stall) = Inr (None, Stream [] Stall)"
  by (simp add: read_body_def)

lemma ex_chars: "char_of (195 :: nat) = CHR 0xC3" "char_of (169 :: nat) = CHR 0xA9"
proof -
  have "(195 :: nat) = of_char (CHR 0xC3)" and "(169 :: nat) = of_char (CHR 0xA9)" by simp_all
  then show "char_of (195 :: nat) = CHR 0xC3" "char_of (169 :: nat) = CHR 0xA9"
    by (simp_all only: char_of_char)
qed

lemma ex_utf8: "utf8_encode [233] = Inr [CHR 0xC3, CHR 0xA9]"
  "utf8_encode [55296] = Inl UnicodeEncodeError"
  by (simp_all add: utf8_char_def ex_chars)

lemma ex_str1: "str_int 1 = ''1''"
  by code_simp

lemma ex_body_bytes: "body_bytes [55296] = []" "body_bytes [233] = [CHR 0xC3, CHR 0xA9]"
  unfolding body_bytes_def ex_utf8 by simp_all

theorem response_format_witness:
  "utf8_encode (ustr ''hi'') = Inr ''hi''
   \<and> handle_proxy_request (\<lambda>v. []) (\<lambda>q. Response 200 [(''Server'', ''x'')] (ustr ''hi''))
     \<lparr>target_url = JStr (ustr ''http://t''), max_connections = 100, stats = fresh_stats ''t0''\<rparr>
     (Stream (''GET /a HTTP/1.1'' @ [CR, LF] @ ''Host: x'' @ [CR, LF, CR, LF]) Stall)
     = Some (\<lparr>target_url = JStr (ustr ''http://t''), max_connections = 100,
          stats = \<lparr>total_requests = 1, successful_requests = 1, failed_requests = 0,
                   start_time = ''t0'', uptime_seconds = 0, active_connections = 0\<rparr>\<rparr>,
          \<lparr>written = ''HTTP/1.1 200 OK'' @ [CR, LF] @ ''Content-Length: 2'' @ [CR, LF]
            @ ''Content-Type: application/json'' @ [CR, LF, CR, LF] @ ''hi'',
            forwarded = Some \<lparr>req_method = ''GET'', req_url = ustr ''http://t/a'',
              req_headers = [(''Host'', ''x'')], req_data = None\<rparr>,
            closed = True\<rparr>)"
proof -
  have enc: "utf8_encode (ustr ''hi'') = Inr ''hi''"
    by (simp add: utf8_encode_ascii)
  have up: "(\<lambda>q. Response 200 [(''Server'', ''x'')] (ustr ''hi''))
      \<lparr>req_method = ''GET'',
       req_url = format_value (\<lambda>v. []) (target_url \<lparr>target_url = JStr (ustr ''http://t''), max_connections = 100, stats = fresh_stats ''t0''\<rparr>) @ ustr ''/a'',
       req_headers = [(''Host'', ''x'')], req_data = None\<rparr>
      = Response 200 [(''Server'', ''x'')] (ustr ''hi'')"
    by simp
  from response_format[OF ex_no_length ex_no_body up enc]
  have "handle_proxy_request (\<lambda>v. []) (\<lambda>q. Response 200 [(''Server'', ''x'')] (ustr ''hi''))
     \<lparr>target_url = JStr (ustr ''http://t''), max_connections = 100, stats = fresh_stats ''t0''\<rparr>
     (Stream (''GET /a HTTP/1.1'' @ [CR, LF] @ ''Host: x'' @ [CR, LF, CR, LF]) Stall)
     = Some (\<lparr>target_url = JStr (ustr ''http://t''), max_connections = 100,
          stats = \<lparr>total_requests = 1, successful_requests = 1, failed_requests = 0,
                   start_time = ''t0'', uptime_seconds = 0, active_connections = 0\<rparr>\<rparr>,
          \<lparr>written = ''HTTP/1.1 200 OK'' @ [CR, LF] @ ''Content-Length: 2'' @ [CR, LF]
            @ ''Content-Type: application/json'' @ [CR, LF, CR, LF] @ ''hi'',
            forwarded = Some \<lparr>req_method = ''GET'', req_url = ustr ''http://t/a'',
              req_headers = [(''Host'', ''x'')], req_data = None\<rparr>,
            closed = True\<rparr>)"
    by (simp add: format_value_def ustr_append ex_str length_ustr fresh_stats_def
        forward_begin_def forward_success_def forward_finally_def)
  with enc show ?thesis by (intro conjI)
qed

lemma ex_unencodable:
  "handle_proxy_request (\<lambda>v. []) (\<lambda>q. Response 200 [] [55296])
     \<lparr>target_url = JStr (ustr ''http://t''), max_connections = 100, stats = fresh_stats ''t0''\<rparr>
     (Stream (''GET /a HTTP/1.1'' @ [CR, LF] @ ''Host: x'' @ [CR, LF, CR, LF]) Stall)
     = Some (\<lparr>target_url = JStr (ustr ''http://t''), max_connections = 100,
          stats = \<lparr>total_requests = 1, successful_requests = 1, failed_requests = 0,
                   start_time = ''t0'', uptime_seconds = 0, active_connections = 0\<rparr>\<rparr>,
          \<lparr>written = ''HTTP/1.1 200 OK'' @ [CR, LF] @ ''Content-Length: 1'' @ [CR, LF]
            @ ''Content-Type: application/json'' @ [CR, LF, CR, LF],
            forwarded = Some \<lparr>req_method = ''GET'', req_url = ustr ''http://t/a'',
              req_headers = [(''Host'', ''x'')], req_data = None\<rparr>,
            closed = True\<rparr>)"
  unfolding handle_forwarding[OF ex_no_length ex_no_body]
  by (simp add: respond_eq closed_conn_def forward_request_def response_line_def
      response_headers_def ex_body_bytes format_value_def ustr_append ex_str ex_str1
      fresh_stats_def forward_begin_def forward_success_def forward_finally_def)

text \<open>
  Claim C7 as stated, for every successfully forwarded request: the written response ends
  with the body.  It fails when the upstream text holds a lone surrogate: the status line
  and the headers are handed to the writer, the encoding of the text raises, and the
  connection is closed after the blank line although \<open>Content-Length\<close> announces one
  character.
\<close>

theorem unencodable_text_counterexample:
  "\<not> (\<forall>repr up p s p' c req status upstream_headers text.
        handle_proxy_request repr up p s = Some (p', c) \<and> forwarded c = Some req
        \<and> up req = Response status upstream_headers text \<longrightarrow>
        (\<exists>version encoded. utf8_encode text = Inr encoded
           \<and> written c = response_line version status @ response_headers text @ encoded))"
proof
  assume "\<forall>repr up p s p' c req status upstream_headers text.
        handle_proxy_request repr up p s = Some (p', c) \<and> forwarded c = Some req
        \<and> up req = Response status upstream_headers text \<longrightarrow>
        (\<exists>version encoded. utf8_encode text = Inr encoded
           \<and> written c = response_line version status @ response_headers text @ encoded)"
  from this[rule_format, of "(\<lambda>v. [])" "(\<lambda>q. Response 200 [] [55296])" _ _ _ _ _ 200 "[]" "[55296]", OF conjI[OF ex_unencodable]]
  have "\<exists>version encoded. utf8_encode [55296] = Inr encoded
      \<and> ''HTTP/1.1 200 OK'' @ [CR, LF] @ ''Content-Length: 1'' @ [CR, LF]
            @ ''Content-Type: application/json'' @ [CR, LF, CR, LF]
        = response_line version 200 @ response_headers [55296] @ encoded"
    by simp
  then show False unfolding ex_utf8(2) by simp
qed

theorem content_length_counts_characters_witness:
  "utf8_encode [233] = Inr [CHR 0xC3, CHR 0xA9]
   \<and> (\<exists>p' c. handle_proxy_request (\<lambda>v. []) (\<lambda>q. Response 200 [] [233])
     \<lparr>target_url = JStr (ustr ''http://t''), max_connections = 100, stats = fresh_stats ''t0''\<rparr>
     (Stream (''GET /a HTTP/1.1'' @ [CR, LF] @ ''Host: x'' @ [CR, LF, CR, LF]) Stall) = Some (p', c)
        \<and> written c = ''HTTP/1.1 200 OK'' @ [CR, LF] @ ''Content-Length: 1'' @ [CR, LF]
            @ ''Content-Type: application/json'' @ [CR, LF, CR, LF] @ [CHR 0xC3, CHR 0xA9])
   \<and> py_int ''1'' = Some 1
   \<and> length [CHR 0xC3, CHR 0xA9] \<noteq> length [233 :: nat]
   \<and> \<not> (233 :: nat) < 128"
proof -
  have fw: "snd (forward_request (\<lambda>q. Response 200 [] [233]) (stats \<lparr>target_url = JStr (ustr ''http://t''), max_connections = 100, stats = fresh_stats ''t0''\<rparr>)
      \<lparr>req_method = ''GET'',
       req_url = format_value (\<lambda>v. []) (target_url \<lparr>target_url = JStr (ustr ''http://t''), max_connections = 100, stats = fresh_stats ''t0''\<rparr>) @ ustr ''/a'',
       req_headers = [(''Host'', ''x'')], req_data = None\<rparr>) = (200, [233])"
    by (simp add: forward_request_def)
  from content_length_counts_characters[OF ex_no_length ex_no_body fw]
  obtain p' c where run: "handle_proxy_request (\<lambda>v. []) (\<lambda>q. Response 200 [] [233])
     \<lparr>target_url = JStr (ustr ''http://t''), max_connections = 100, stats = fresh_stats ''t0''\<rparr>
     (Stream (''GET /a HTTP/1.1'' @ [CR, LF] @ ''Host: x'' @ [CR, LF, CR, LF]) Stall) = Some (p', c)"
    and w: "written c = response_line ''HTTP/1.1'' 200
                 @ ''Content-Length: '' @ str_int (int (length [233 :: nat])) @ [CR, LF]
                 @ ''Content-Type: application/json'' @ [CR, LF, CR, LF]
                 @ body_bytes [233]"
    and pi: "py_int (str_int (int (length [233 :: nat]))) = Some (int (length [233 :: nat]))"
    by (elim exE conjE)
  from w have w': "written c = ''HTTP/1.1 200 OK'' @ [CR, LF] @ ''Content-Length: 1'' @ [CR, LF]
            @ ''Content-Type: application/json'' @ [CR, LF, CR, LF] @ [CHR 0xC3, CHR 0xA9]"
    by (simp add: response_line_def ex_str ex_str1 ex_body_bytes)
  have one: "\<exists>p' c. handle_proxy_request (\<lambda>v. []) (\<lambda>q. Response 200 [] [233])
     \<lparr>target_url = JStr (ustr ''http://t''), max_connections = 100, stats = fresh_stats ''t0''\<rparr>
     (Stream (''GET /a HTTP/1.1'' @ [CR, LF] @ ''Host: x'' @ [CR, LF, CR, LF]) Stall) = Some (p', c)
        \<and> written c = ''HTTP/1.1 200 OK'' @ [CR, LF] @ ''Content-Length: 1'' @ [CR, LF]
            @ ''Content-Type: application/json'' @ [CR, LF, CR, LF] @ [CHR 0xC3, CHR 0xA9]"
    by (intro exI conjI) (rule run, rule w')
  from pi have two: "py_int ''1'' = Some 1" by (simp add: ex_str1)
  have three: "length [CHR 0xC3, CHR 0xA9] \<noteq> length [233 :: nat]" by simp
  have four: "\<not> (233 :: nat) < 128" by simp
  from ex_utf8(1) one two three four show ?thesis by (intro conjI)
qed

section \<open>Properties of the configuration update\<close>

lemma py_getitem_obj: "py_getitem data key = Inr v \<Longrightarrow> \<exists>kvs. data = JObj kvs \<and> map_of kvs key = Some v"
  by (cases data) (auto simp: py_getitem_def split: option.splits)

lemma py_in_obj: "py_in key (JObj kvs) = Inr (map_of kvs key \<noteq> None)"
  by (simp add: py_in_def)

lemma config_try_failure:
  "config_try conv body p = (p', Inl e) \<Longrightarrow> p' = p"
proof (cases body)
  case (Inl x)
  assume "config_try conv body p = (p', Inl e)"
  with Inl show ?thesis by (simp add: config_try_def)
next
  case (Inr data)
  assume a: "config_try conv body p = (p', Inl e)"
  show ?thesis
  proof (cases "\<exists>kvs. data = JObj kvs")
    case True
    then obtain kvs where d: "data = JObj kvs" by blast
    from a show ?thesis
      unfolding config_try_def Inr d
      by (simp add: py_in_obj py_getitem_def split: option.splits sum.splits if_splits)
  next
    case False
    then have g: "\<And>key. py_getitem data key = Inl TypeError"
      by (cases data) (simp_all add: py_getitem_def)
    from a show ?thesis
      unfolding config_try_def Inr
      by (simp add: g split: sum.splits if_splits)
  qed
qed

lemma config_try_success:
  assumes "config_try conv body p = (p', Inr doc)"
  shows "\<exists>data. body = Inr data
           \<and> (py_in (ustr ''max_connections'') data = Inr True \<longrightarrow>
                 (\<exists>v. py_getitem data (ustr ''max_connections'') = Inr v
                    \<and> py_int_of conv v = Inr (max_connections p')))
           \<and> (py_in (ustr ''max_connections'') data = Inr False \<longrightarrow>
                 max_connections p' = max_connections p)
           \<and> stats p' = stats p
           \<and> doc = JObj [(ustr ''message'', JStr (ustr ''Configuration updated successfully'')),
                          (ustr ''config'', JObj [(ustr ''max_connections'', JInt (max_connections p')),
                                                   (ustr ''target_url'', target_url p')])]"
proof (cases body)
  case (Inl x)
  with assms show ?thesis by (simp add: config_try_def)
next
  case (Inr data)
  from assms show ?thesis
    unfolding config_try_def Inr
    by (auto split: sum.splits if_splits)
qed

text \<open>
  Claim C8, amended.  A \<^verbatim>\<open>POST /config\<close> request answers 200 or 400.  After a 200 the
  stored \<open>max_connections\<close> is the integer that \<^verbatim>\<open>int()\<close> makes of the supplied value,
  whatever its sign, or the previous value when none was supplied; the counters are
  untouched and the response carries the message and the configuration.  A 400 carries
  an \<open>error\<close> key and leaves the proxy as it was, so a configuration that was valid
  stays valid.
\<close>

theorem update_config_effect:
  assumes "update_config conv str_exn body p = (p', status, doc)"
  shows "(status = 200 \<or> status = 400)
       \<and> (status = 200 \<longrightarrow>
            (\<exists>data. body = Inr data
               \<and> (py_in (ustr ''max_connections'') data = Inr True \<longrightarrow>
                     (\<exists>v. py_getitem data (ustr ''max_connections'') = Inr v
                        \<and> py_int_of conv v = Inr (max_connections p')))
               \<and> (py_in (ustr ''max_connections'') data = Inr False \<longrightarrow>
                     max_connections p' = max_connections p)
               \<and> stats p' = stats p
               \<and> doc = JObj [(ustr ''message'', JStr (ustr ''Configuration updated successfully'')),
                      (ustr ''config'', JObj [(ustr ''max_connections'', JInt (max_connections p')),
                                               (ustr ''target_url'', target_url p')])]))
       \<and> (status = 400 \<longrightarrow>
            p' = p \<and> (valid_config p \<longrightarrow> valid_config p')
            \<and> (\<exists>e. doc = JObj [(ustr ''error'', JStr (str_exn e))]))"
proof -
  obtain q r where ct: "config_try conv body p = (q, r)"
    by (cases "config_try conv body p")
  show ?thesis
  proof (cases r)
    case (Inl e)
    from config_try_failure[OF ct[unfolded Inl]] have "q = p" .
    with assms ct Inl
    have "p' = p" "status = 400" "doc = JObj [(ustr ''error'', JStr (str_exn e))]"
      by (simp_all add: update_config_def)
    then show ?thesis by auto
  next
    case (Inr d)
    with assms ct have eqs: "q = p'" "status = 200" "d = doc"
      by (simp_all add: update_config_def)
    from ct have "config_try conv body p = (p', Inr doc)"
      unfolding Inr eqs(1) eqs(3) .
    from config_try_success[OF this] eqs(2) show ?thesis by simp
  qed
qed

lemma ex_update_zero:
  "update_config (\<lambda>t. None) (\<lambda>e. ustr ''bad'') (Inr (JObj [(ustr ''max_connections'', JInt 0)]))
     \<lparr>target_url = JStr (ustr ''http://t''), max_connections = 100, stats = fresh_stats ''t0''\<rparr>
   = (\<lparr>target_url = JStr (ustr ''http://t''), max_connections = 0, stats = fresh_stats ''t0''\<rparr>, 200,
      JObj [(ustr ''message'', JStr (ustr ''Configuration updated successfully'')),
            (ustr ''config'', JObj [(ustr ''max_connections'', JInt 0),
                                     (ustr ''target_url'', JStr (ustr ''http://t''))])])"
  by (simp add: update_config_def config_try_def py_in_def py_getitem_def py_int_of_def ustr_def)

text \<open>
  Claim C8 as stated: after every successful \<^verbatim>\<open>POST /config\<close> the stored
  \<open>max_connections\<close> is greater than zero.  It fails: the handler stores \<^verbatim>\<open>int()\<close> of
  the supplied value without looking at its sign, and zero is answered with 200.
\<close>

theorem zero_max_connections_counterexample:
  "\<not> (\<forall>conv str_exn body p p' doc.
        update_config conv str_exn body p = (p', 200, doc) \<longrightarrow> valid_config p')"
proof
  assume "\<forall>conv str_exn body p p' doc.
        update_config conv str_exn body p = (p', 200, doc) \<longrightarrow> valid_config p'"
  from this[rule_format, OF ex_update_zero]
  show False by (simp add: valid_config_def)
qed

lemma ex_update:
  "update_config (\<lambda>t. None) (\<lambda>e. ustr ''bad'') (Inr (JObj [(ustr ''max_connections'', JInt 150)]))
     \<lparr>target_url = JStr (ustr ''http://t''), max_connections = 100, stats = fresh_stats ''t0''\<rparr>
   = (\<lparr>target_url = JStr (ustr ''http://t''), max_connections = 150, stats = fresh_stats ''t0''\<rparr>, 200,
      JObj [(ustr ''message'', JStr (ustr ''Configuration updated successfully'')),
            (ustr ''config'', JObj [(ustr ''max_connections'', JInt 150),
                                     (ustr ''target_url'', JStr (ustr ''http://t''))])])"
  "update_config (\<lambda>t. None) (\<lambda>e. ustr ''bad'') (Inl JSONDecodeError)
     \<lparr>target_url = JStr (ustr ''http://t''), max_connections = 100, stats = fresh_stats ''t0''\<rparr>
   = (\<lparr>target_url = JStr (ustr ''http://t''), max_connections = 100, stats = fresh_stats ''t0''\<rparr>, 400, JObj [(ustr ''error'', JStr (ustr ''bad''))])"
  by (simp_all add: update_config_def config_try_def py_in_def py_getitem_def py_int_of_def
      ustr_def)

theorem update_config_effect_witness:
  "update_config (\<lambda>t. None) (\<lambda>e. ustr ''bad'') (Inr (JObj [(ustr ''max_connections'', JInt 150)]))
     \<lparr>target_url = JStr (ustr ''http://t''), max_connections = 100, stats = fresh_stats ''t0''\<rparr>
   = (\<lparr>target_url = JStr (ustr ''http://t''), max_connections = 150, stats = fresh_stats ''t0''\<rparr>, 200,
      JObj [(ustr ''message'', JStr (ustr ''Configuration updated successfully'')),
            (ustr ''config'', JObj [(ustr ''max_connections'', JInt 150),
                                     (ustr ''target_url'', JStr (ustr ''http://t''))])])
   \<and> py_int_of (\<lambda>t. None) (JInt 150) = Inr 150
   \<and> update_config (\<lambda>t. None) (\<lambda>e. ustr ''bad'') (Inl JSONDecodeError)
       \<lparr>target_url = JStr (ustr ''http://t''), max_connections = 100, stats = fresh_stats ''t0''\<rparr>
     = (\<lparr>target_url = JStr (ustr ''http://t''), max_connections = 100, stats = fresh_stats ''t0''\<rparr>, 400, JObj [(ustr ''error'', JStr (ustr ''bad''))])
   \<and> valid_config \<lparr>target_url = JStr (ustr ''http://t''), max_connections = 100, stats = fresh_stats ''t0''\<rparr>"
proof -
  from update_config_effect[OF ex_update(1)]
  have "py_in (ustr ''max_connections'') (JObj [(ustr ''max_connections'', JInt 150)]) = Inr True \<longrightarrow>
      (\<exists>v. py_getitem (JObj [(ustr ''max_connections'', JInt 150)]) (ustr ''max_connections'') = Inr v
         \<and> py_int_of (\<lambda>t. None) v = Inr 150)"
    by simp
  then have one: "py_int_of (\<lambda>t. None) (JInt 150) = Inr 150"
    by (simp add: py_in_def py_getitem_def)
  have three: "valid_config \<lparr>target_url = JStr (ustr ''http://t''), max_connections = 100, stats = fresh_stats ''t0''\<rparr>"
    by (simp add: valid_config_def)
  from ex_update(1) one ex_update(2) three show ?thesis by (intro conjI)
qed

end
